theory Spec2Isabelle
  imports Complex_Main "HOL-Library.Sublist" "HOL-Library.Multiset" "HOL-Library.AList"
begin

section \<open>Python values\<close>

text \<open>
  A Python \<open>str\<close> is a sequence of Unicode code points; a code point is a natural number.
  \<open>ustr\<close> turns an ASCII literal of the source into that representation.
\<close>

type_synonym ustring = "nat list"

definition ustr :: "string \<Rightarrow> ustring" where
  "ustr s = map of_char s"

text \<open>
  The values that travel through the service: what \<open>response.json()\<close> can produce, plus
  the \<open>datetime\<close> that the use case stamps on its result. A \<open>dict\<close> keeps its items in
  insertion order; assigning to a key replaces the value in place or appends the item
  (\<open>AList.update\<close>), and \<open>d.get(k)\<close> is \<open>map_of d k\<close>. Floats are represented by rationals.
\<close>

datatype pyval =
    PNone
  | PBool bool
  | PInt int
  | PFloat rat
  | PStr ustring
  | PList "pyval list"
  | PDict "(ustring \<times> pyval) list"
  | PDateTime int

type_synonym dict = "(ustring \<times> pyval) list"

datatype exn =
    WeatherServiceException ustring
  | KeyError pyval
  | IndexError ustring
  | TypeError ustring
  | AttributeError ustring
  | ValueError ustring
  | DatabaseError ustring

text \<open>
  What the model takes from the Python runtime instead of defining it: the Unicode
  character database behind \<open>str.title\<close> and \<open>str.lower\<close> (the full title-case and
  lower-case mappings of a code point and the properties Cased and Case_Ignorable), the
  text of an instant (\<open>datetime.isoformat()\<close> and \<open>str(datetime)\<close>), \<open>round(x, 1)\<close> on a
  float and \<open>repr\<close> of a value. Every function of the model that needs one of them takes
  the record as its first argument, and every theorem holds for each such record unless
  it names a particular one.
\<close>

record pylib =
  to_title :: "nat \<Rightarrow> nat list"
  to_lower :: "nat \<Rightarrow> nat list"
  is_cased :: "nat \<Rightarrow> bool"
  is_case_ignorable :: "nat \<Rightarrow> bool"
  isoformat :: "int \<Rightarrow> ustring"
  str_datetime :: "int \<Rightarrow> ustring"
  round1 :: "rat \<Rightarrow> rat"
  repr :: "pyval \<Rightarrow> ustring"

subsection \<open>\<open>str.strip\<close>, \<open>str.lower\<close>, \<open>str.title\<close>\<close>

text \<open>The code points that \<open>str.isspace\<close> accepts, which are those \<open>str.strip()\<close> removes.\<close>

definition is_space :: "nat \<Rightarrow> bool" where
  "is_space c \<longleftrightarrow>
     c \<in> set [9, 10, 11, 12, 13, 28, 29, 30, 31, 32, 133, 160, 5760] \<or>
     (8192 \<le> c \<and> c \<le> 8202) \<or>
     c \<in> set [8232, 8233, 8239, 8287, 12288]"

definition str_strip :: "ustring \<Rightarrow> ustring" where
  "str_strip s = rev (dropWhile is_space (rev (dropWhile is_space s)))"

text \<open>
  CPython lowers U+03A3 (capital sigma, 931) by its context: to the final sigma U+03C2
  (962) when a cased character stands before it, case-ignorable characters aside, and none
  after it, and to U+03C3 (963) otherwise. \<open>before\<close> holds the characters already passed,
  the nearest first.
\<close>

definition final_sigma :: "pylib \<Rightarrow> ustring \<Rightarrow> ustring \<Rightarrow> bool" where
  "final_sigma L before after \<longleftrightarrow>
     (case dropWhile (is_case_ignorable L) before of
        [] \<Rightarrow> False
      | c # _ \<Rightarrow> is_cased L c) \<and>
     (case dropWhile (is_case_ignorable L) after of
        [] \<Rightarrow> True
      | c # _ \<Rightarrow> \<not> is_cased L c)"

definition lower_ucs4 :: "pylib \<Rightarrow> ustring \<Rightarrow> nat \<Rightarrow> ustring \<Rightarrow> ustring" where
  "lower_ucs4 L before c after =
     (if c = 931 then [if final_sigma L before after then 962 else 963]
      else to_lower L c)"

fun lower_from :: "pylib \<Rightarrow> ustring \<Rightarrow> ustring \<Rightarrow> ustring" where
  "lower_from L before [] = []"
| "lower_from L before (c # after) =
     lower_ucs4 L before c after @ lower_from L (c # before) after"

definition str_lower :: "pylib \<Rightarrow> ustring \<Rightarrow> ustring" where
  "str_lower L s = lower_from L [] s"

text \<open>
  \<open>str.title\<close>: a character that follows a cased character is lowered, any other character
  is title-cased; whether the next character follows a cased one is read off the
  character of the input, not off its image.
\<close>

fun title_from :: "pylib \<Rightarrow> bool \<Rightarrow> ustring \<Rightarrow> ustring \<Rightarrow> ustring" where
  "title_from L previous_is_cased before [] = []"
| "title_from L previous_is_cased before (c # after) =
     (if previous_is_cased then lower_ucs4 L before c after else to_title L c)
     @ title_from L (is_cased L c) (c # before) after"

definition str_title :: "pylib \<Rightarrow> ustring \<Rightarrow> ustring" where
  "str_title L s = title_from L False [] s"

text \<open>
  A character on which title-casing settles at once: it is not the capital sigma, its
  title-case and its lower-case images are single code points that are fixed by the same
  mapping, cased exactly when the character is, and white space exactly when it is.
\<close>

definition stable_char :: "pylib \<Rightarrow> nat \<Rightarrow> bool" where
  "stable_char L c \<longleftrightarrow>
     c \<noteq> 931 \<and>
     (case to_title L c of
        [t] \<Rightarrow> to_title L t = [t] \<and> is_cased L t = is_cased L c \<and> is_space t = is_space c
      | _ \<Rightarrow> False) \<and>
     (case to_lower L c of
        [l] \<Rightarrow> l \<noteq> 931 \<and> to_lower L l = [l] \<and> is_cased L l = is_cased L c \<and>
               is_space l = is_space c
      | _ \<Rightarrow> False)"

text \<open>\<open>str(n)\<close> of a natural number: its decimal digits.\<close>

fun str_nat :: "nat \<Rightarrow> ustring" where
  "str_nat n = (if n < 10 then [48 + n] else str_nat (n div 10) @ [48 + n mod 10])"

declare str_nat.simps [simp del]

text \<open>\<open>str(e)\<close> of an exception: its message; a \<open>KeyError\<close> prints the \<open>repr\<close> of the key.\<close>

fun str_exn :: "pylib \<Rightarrow> exn \<Rightarrow> ustring" where
  "str_exn L (WeatherServiceException m) = m"
| "str_exn L (KeyError k) = repr L k"
| "str_exn L (IndexError m) = m"
| "str_exn L (TypeError m) = m"
| "str_exn L (AttributeError m) = m"
| "str_exn L (ValueError m) = m"
| "str_exn L (DatabaseError m) = m"

subsection \<open>\<open>json.loads(json.dumps(value, default=str))\<close>\<close>

text \<open>
  The cache holds the JSON text of a dict; the model stores the value that the text decodes
  to. Encoding and decoding gives back every JSON value as it was; a \<open>datetime\<close> is not JSON
  and goes through \<open>default=str\<close>, so it comes back as its text.
\<close>

fun dumps_loads :: "pylib \<Rightarrow> pyval \<Rightarrow> pyval" where
  "dumps_loads L (PDateTime t) = PStr (str_datetime L t)"
| "dumps_loads L (PList vs) = PList (map (dumps_loads L) vs)"
| "dumps_loads L (PDict kvs) = PDict (map (\<lambda>kv. (fst kv, dumps_loads L (snd kv))) kvs)"
| "dumps_loads L v = v"

definition dumps_loads_dict :: "pylib \<Rightarrow> dict \<Rightarrow> dict" where
  "dumps_loads_dict L d = map (\<lambda>kv. (fst kv, dumps_loads L (snd kv))) d"

text \<open>A value with no \<open>datetime\<close> in it.\<close>

fun json_native :: "pyval \<Rightarrow> bool" where
  "json_native (PDateTime t) = False"
| "json_native (PList vs) = list_all json_native vs"
| "json_native (PDict kvs) = list_all (\<lambda>kv. json_native (snd kv)) kvs"
| "json_native v = True"

section \<open>The cache backend (\<open>django.core.cache.cache\<close>)\<close>

text \<open>
  The backend is a key-value store whose entries carry the instant at which they expire:
  \<open>cache.set(key, value, timeout)\<close> stores the value with expiry \<open>now + timeout\<close>,
  \<open>cache.get(key)\<close> answers nothing for a missing or expired entry, \<open>cache.get(key, default)\<close>
  answers the default then, and \<open>cache.delete(key)\<close> drops the entry. Instants are seconds
  on the integer line. The rate limiter keeps integers under the keys \<open>rate_limit:...\<close> and
  the weather repository keeps JSON text under the keys \<open>weather_cache:...\<close>; the two
  families of keys are disjoint, so each is modelled as a store of its own value type.
\<close>

type_synonym 'v cache = "ustring \<rightharpoonup> ('v \<times> int)"

definition cache_get :: "'v cache \<Rightarrow> int \<Rightarrow> ustring \<Rightarrow> 'v option" where
  "cache_get c now key =
     (case c key of
        None \<Rightarrow> None
      | Some (v, expires) \<Rightarrow> if now < expires then Some v else None)"

definition cache_get_default :: "'v cache \<Rightarrow> int \<Rightarrow> ustring \<Rightarrow> 'v \<Rightarrow> 'v" where
  "cache_get_default c now key dflt =
     (case cache_get c now key of None \<Rightarrow> dflt | Some v \<Rightarrow> v)"

definition cache_set :: "'v cache \<Rightarrow> int \<Rightarrow> ustring \<Rightarrow> 'v \<Rightarrow> int \<Rightarrow> 'v cache" where
  "cache_set c now key v timeout = c(key \<mapsto> (v, now + timeout))"

definition cache_delete :: "'v cache \<Rightarrow> ustring \<Rightarrow> 'v cache" where
  "cache_delete c key = c(key := None)"

section \<open>\<open>apps/core/middleware.py\<close>: RateLimitMiddleware\<close>

record settings =
  RATE_LIMIT_REQUESTS :: int
  RATE_LIMIT_WINDOW :: int
  TESTING :: bool
  BDD_RATE_LIMITING_ENABLED :: bool

record request =
  path :: ustring
  HTTP_X_FORWARDED_FOR :: "ustring option"
  REMOTE_ADDR :: "ustring option"

text \<open>The middleware either hands the request on to \<open>get_response\<close> or answers 429 itself.\<close>

datatype verdict = Forward | TooManyRequests

text \<open>\<open>x_forwarded_for.split(",")[0]\<close>: the text before the first comma (code point 44).\<close>

definition get_client_ip :: "request \<Rightarrow> ustring option" where
  "get_client_ip r =
     (case HTTP_X_FORWARDED_FOR r of
        Some x \<Rightarrow> if x \<noteq> [] then Some (takeWhile (\<lambda>ch. ch \<noteq> 44) x) else REMOTE_ADDR r
      | None \<Rightarrow> REMOTE_ADDR r)"

text \<open>The f-string \<open>f"rate_limit:{ip_address}"\<close>; an address of \<open>None\<close> prints as \<open>None\<close>.\<close>

definition rate_limit_key :: "ustring option \<Rightarrow> ustring" where
  "rate_limit_key ip = ustr ''rate_limit:'' @ (case ip of None \<Rightarrow> ustr ''None'' | Some a \<Rightarrow> a)"

text \<open>The counter of an identity as both methods read it: \<open>cache.get(cache_key, 0)\<close>.\<close>

definition current_requests :: "int cache \<Rightarrow> int \<Rightarrow> ustring option \<Rightarrow> int" where
  "current_requests c now ip = cache_get_default c now (rate_limit_key ip) 0"

definition is_rate_limited :: "settings \<Rightarrow> int cache \<Rightarrow> int \<Rightarrow> ustring option \<Rightarrow> bool" where
  "is_rate_limited S c now ip \<longleftrightarrow> current_requests c now ip \<ge> RATE_LIMIT_REQUESTS S"

definition record_request :: "settings \<Rightarrow> int cache \<Rightarrow> int \<Rightarrow> ustring option \<Rightarrow> int cache" where
  "record_request S c now ip =
     cache_set c now (rate_limit_key ip) (current_requests c now ip + 1) (RATE_LIMIT_WINDOW S)"

definition RateLimitMiddleware_call ::
  "settings \<Rightarrow> int cache \<Rightarrow> int \<Rightarrow> request \<Rightarrow> verdict \<times> int cache" where
  "RateLimitMiddleware_call S c now r =
     (if path r \<in> set [ustr ''/health/'', ustr ''/metrics''] then (Forward, c)
      else if TESTING S \<and> \<not> BDD_RATE_LIMITING_ENABLED S then (Forward, c)
      else if \<not> (path r = ustr ''/api/v1/weather/'' \<or> prefix (ustr ''/api/v1/weather/?'') (path r))
        then (Forward, c)
      else
        (let ip_address = get_client_ip r in
         if is_rate_limited S c now ip_address then (TooManyRequests, c)
         else (Forward, record_request S c now ip_address)))"

text \<open>
  A run of attempts, served one after the other: each attempt is the instant of the call
  and the request; the result lists the verdicts in order and gives the final store.
\<close>

fun serve :: "settings \<Rightarrow> int cache \<Rightarrow> (int \<times> request) list \<Rightarrow> verdict list \<times> int cache" where
  "serve S c [] = ([], c)"
| "serve S c ((now, r) # rest) =
     (case RateLimitMiddleware_call S c now r of
        (v, c') \<Rightarrow> (case serve S c' rest of (vs, c'') \<Rightarrow> (v # vs, c'')))"

text \<open>The limiter is in force for a request: none of the three early returns applies.\<close>

definition limited_request :: "settings \<Rightarrow> request \<Rightarrow> bool" where
  "limited_request S r \<longleftrightarrow>
     \<not> (TESTING S \<and> \<not> BDD_RATE_LIMITING_ENABLED S) \<and>
     (path r = ustr ''/api/v1/weather/'' \<or> prefix (ustr ''/api/v1/weather/?'') (path r))"

text \<open>Every stored counter is at most the limit.\<close>

definition counters_bounded :: "settings \<Rightarrow> int cache \<Rightarrow> bool" where
  "counters_bounded S c \<longleftrightarrow> (\<forall>k v e. c k = Some (v, e) \<longrightarrow> v \<le> RATE_LIMIT_REQUESTS S)"

section \<open>\<open>apps/weather/services.py\<close>: the weather providers\<close>

text \<open>An exception ends a computation; \<open>bind_exn\<close> runs the next step on a result.\<close>

definition bind_exn :: "exn + 'a \<Rightarrow> ('a \<Rightarrow> exn + 'b) \<Rightarrow> exn + 'b" where
  "bind_exn m f = (case m of Inl e \<Rightarrow> Inl e | Inr x \<Rightarrow> f x)"

fun type_name :: "pyval \<Rightarrow> ustring" where
  "type_name PNone = ustr ''NoneType''"
| "type_name (PBool b) = ustr ''bool''"
| "type_name (PInt n) = ustr ''int''"
| "type_name (PFloat x) = ustr ''float''"
| "type_name (PStr s) = ustr ''str''"
| "type_name (PList vs) = ustr ''list''"
| "type_name (PDict kvs) = ustr ''dict''"
| "type_name (PDateTime t) = ustr ''datetime.datetime''"

text \<open>\<open>v[key]\<close> with a \<open>str\<close> key.\<close>

fun getitem_str :: "pyval \<Rightarrow> ustring \<Rightarrow> exn + pyval" where
  "getitem_str (PDict kvs) key =
     (case map_of kvs key of Some x \<Rightarrow> Inr x | None \<Rightarrow> Inl (KeyError (PStr key)))"
| "getitem_str (PList vs) key =
     Inl (TypeError (ustr ''list indices must be integers or slices, not str''))"
| "getitem_str (PStr s) key =
     Inl (TypeError (ustr ''string indices must be integers, not '' @ [39] @ ustr ''str'' @ [39]))"
| "getitem_str v key =
     Inl (TypeError ([39] @ type_name v @ [39] @ ustr '' object is not subscriptable''))"

text \<open>
  \<open>v[0]\<close>. The keys of a decoded JSON object are strings, so the key \<open>0\<close> is never among
  them.
\<close>

fun getitem_0 :: "pyval \<Rightarrow> exn + pyval" where
  "getitem_0 (PList []) = Inl (IndexError (ustr ''list index out of range''))"
| "getitem_0 (PList (x # xs)) = Inr x"
| "getitem_0 (PDict kvs) = Inl (KeyError (PInt 0))"
| "getitem_0 (PStr []) = Inl (IndexError (ustr ''string index out of range''))"
| "getitem_0 (PStr (c # cs)) = Inr (PStr [c])"
| "getitem_0 v = Inl (TypeError ([39] @ type_name v @ [39] @ ustr '' object is not subscriptable''))"

text \<open>\<open>v.title()\<close>.\<close>

fun call_title :: "pylib \<Rightarrow> pyval \<Rightarrow> exn + pyval" where
  "call_title L (PStr s) = Inr (PStr (str_title L s))"
| "call_title L v =
     Inl (AttributeError ([39] @ type_name v @ [39] @ ustr '' object has no attribute '' @ [39] @ ustr ''title'' @ [39]))"

text \<open>\<open>v.get(key, default)\<close>.\<close>

fun call_get :: "pyval \<Rightarrow> ustring \<Rightarrow> pyval \<Rightarrow> exn + pyval" where
  "call_get (PDict kvs) key dflt = Inr (case map_of kvs key of Some x \<Rightarrow> x | None \<Rightarrow> dflt)"
| "call_get v key dflt =
     Inl (AttributeError ([39] @ type_name v @ [39] @ ustr '' object has no attribute '' @ [39] @ ustr ''get'' @ [39]))"

text \<open>\<open>round(v, 1)\<close>: an \<open>int\<close> or \<open>bool\<close> gives an \<open>int\<close>, a float is rounded.\<close>

fun py_round1 :: "pylib \<Rightarrow> pyval \<Rightarrow> exn + pyval" where
  "py_round1 L (PInt n) = Inr (PInt n)"
| "py_round1 L (PBool b) = Inr (PInt (if b then 1 else 0))"
| "py_round1 L (PFloat x) = Inr (PFloat (round1 L x))"
| "py_round1 L v =
     Inl (TypeError (ustr ''type '' @ type_name v @ ustr '' doesn't define __round__ method''))"

text \<open>
  The body of the \<open>try\<close> in \<open>_parse_weather_data\<close>: the items of the dict literal are
  evaluated in the order written, and the first exception ends the evaluation.
\<close>

definition parse_weather_fields :: "pylib \<Rightarrow> pyval \<Rightarrow> exn + dict" where
  "parse_weather_fields L data =
     bind_exn (getitem_str data (ustr ''name'')) (\<lambda>city.
     bind_exn (bind_exn (getitem_str data (ustr ''sys'')) (\<lambda>s. getitem_str s (ustr ''country'')))
       (\<lambda>country.
     bind_exn (bind_exn (bind_exn (getitem_str data (ustr ''main''))
         (\<lambda>m. getitem_str m (ustr ''temp''))) (py_round1 L)) (\<lambda>temperature.
     bind_exn (bind_exn (bind_exn (bind_exn (getitem_str data (ustr ''weather'')) getitem_0)
         (\<lambda>w. getitem_str w (ustr ''description''))) (call_title L)) (\<lambda>description.
     bind_exn (bind_exn (getitem_str data (ustr ''main'')) (\<lambda>m. getitem_str m (ustr ''humidity'')))
       (\<lambda>humidity.
     bind_exn (bind_exn (getitem_str data (ustr ''main'')) (\<lambda>m. getitem_str m (ustr ''pressure'')))
       (\<lambda>pressure.
     bind_exn (bind_exn (call_get data (ustr ''wind'') (PDict []))
         (\<lambda>w. call_get w (ustr ''speed'') (PInt 0))) (\<lambda>wind_speed.
     Inr [(ustr ''city'', city),
          (ustr ''country'', country),
          (ustr ''temperature'', temperature),
          (ustr ''description'', description),
          (ustr ''humidity'', humidity),
          (ustr ''pressure'', pressure),
          (ustr ''wind_speed'', wind_speed),
          (ustr ''provider'', PStr (ustr ''openweathermap'')),
          (ustr ''raw_data'', data)])))))))"

text \<open>\<open>_parse_weather_data\<close>: only a \<open>KeyError\<close> is caught and turned into the service's exception.\<close>

definition parse_weather_data :: "pylib \<Rightarrow> pyval \<Rightarrow> exn + dict" where
  "parse_weather_data L data =
     (case parse_weather_fields L data of
        Inl (KeyError k) \<Rightarrow>
          Inl (WeatherServiceException
                 (ustr ''Erro ao processar dados da API: '' @ str_exn L (KeyError k)))
      | r \<Rightarrow> r)"

text \<open>
  What \<open>requests.get(url, params=params, timeout=10)\<close> brings back: a response with its
  status code and the value of \<open>response.json()\<close>, or a \<open>requests.RequestException\<close> with
  its message. A response with status 200 is taken to carry a JSON body.
\<close>

datatype http_result = Response nat pyval | RequestFailed ustring

text \<open>
  \<open>OpenWeatherMapService.get_weather\<close>. The messages are those of the source; \<open>227\<close>, \<open>225\<close>
  are the code points of the letters a-tilde and a-acute and \<open>39\<close> is the apostrophe. The exceptions raised in the
  \<open>try\<close> are not \<open>RequestException\<close>s, so they leave the method as they are.
\<close>

definition city_not_found :: "ustring \<Rightarrow> ustring" where
  "city_not_found city = ustr ''Cidade '' @ [39] @ city @ [39] @ ustr '' n'' @ [227] @ ustr ''o encontrada''"

definition OpenWeatherMapService_get_weather ::
  "pylib \<Rightarrow> ustring \<Rightarrow> http_result \<Rightarrow> ustring \<Rightarrow> exn + dict" where
  "OpenWeatherMapService_get_weather L api_key http city =
     (if api_key = [] then
        Inl (WeatherServiceException (ustr ''OpenWeatherMap API key not configured''))
      else
        (case http of
           RequestFailed m \<Rightarrow>
             Inl (WeatherServiceException (ustr ''Erro de conex'' @ [227] @ ustr ''o: '' @ m))
         | Response status_code body \<Rightarrow>
             if status_code = 200 then parse_weather_data L body
             else if status_code = 404 then Inl (WeatherServiceException (city_not_found city))
             else if status_code = 401 then
               Inl (WeatherServiceException (ustr ''Chave da API inv'' @ [225] @ ustr ''lida''))
             else Inl (WeatherServiceException (ustr ''Erro na API: '' @ str_nat status_code))))"

text \<open>\<open>MockWeatherService.get_weather\<close>.\<close>

definition MockWeatherService_get_weather :: "pylib \<Rightarrow> ustring \<Rightarrow> exn + dict" where
  "MockWeatherService_get_weather L city =
     (if str_lower L city \<in> set [ustr ''error'', ustr ''fail''] then
        Inl (WeatherServiceException (ustr ''Mock error for testing''))
      else if str_lower L city = ustr ''notfound'' then
        Inl (WeatherServiceException (city_not_found city))
      else
        Inr [(ustr ''city'', PStr (str_title L city)),
             (ustr ''country'', PStr (ustr ''BR'')),
             (ustr ''temperature'', PFloat 25),
             (ustr ''description'', PStr (ustr ''Ensolarado'')),
             (ustr ''humidity'', PInt 60),
             (ustr ''pressure'', PFloat (101325 / 100)),
             (ustr ''wind_speed'', PFloat (55 / 10)),
             (ustr ''provider'', PStr (ustr ''mock'')),
             (ustr ''raw_data'', PDict [(ustr ''mock'', PBool True)])])"

text \<open>
  The six kinds of failure that the specification names for the provider. The source has
  one exception class; a kind is told by the message that the source builds for it.
\<close>

datatype error_kind =
  NotConfigured | NotFound | Unauthorized | UpstreamError nat | ConnectionError | ParseError

fun has_kind :: "ustring \<Rightarrow> exn \<Rightarrow> error_kind \<Rightarrow> bool" where
  "has_kind city (WeatherServiceException m) NotConfigured \<longleftrightarrow>
     m = ustr ''OpenWeatherMap API key not configured''"
| "has_kind city (WeatherServiceException m) NotFound \<longleftrightarrow> m = city_not_found city"
| "has_kind city (WeatherServiceException m) Unauthorized \<longleftrightarrow>
     m = ustr ''Chave da API inv'' @ [225] @ ustr ''lida''"
| "has_kind city (WeatherServiceException m) (UpstreamError code) \<longleftrightarrow>
     m = ustr ''Erro na API: '' @ str_nat code"
| "has_kind city (WeatherServiceException m) ConnectionError \<longleftrightarrow>
     prefix (ustr ''Erro de conex'' @ [227] @ ustr ''o: '') m"
| "has_kind city (WeatherServiceException m) ParseError \<longleftrightarrow>
     prefix (ustr ''Erro ao processar dados da API: '') m"
| "has_kind city e k \<longleftrightarrow> False"

section \<open>\<open>apps/weather/models.py\<close>: the query history\<close>

text \<open>
  A row of the table \<open>weather_weatherquery\<close>. \<open>q_id\<close> is the primary key that the database
  assigns, \<open>q_created_at\<close> the instant of creation (\<open>default=timezone.now\<close>). The table keeps
  its rows in the order of insertion.
\<close>

record WeatherQuery =
  q_id :: nat
  q_city :: ustring
  q_ip_address :: ustring
  q_temperature :: pyval
  q_description :: pyval
  q_humidity :: pyval
  q_pressure :: pyval
  q_wind_speed :: pyval
  q_country :: pyval
  q_created_at :: int

record database =
  rows :: "WeatherQuery list"
  next_id :: nat

text \<open>
  The failures of the two stores are events of the environment: a call of the model is told
  which operations of the cache and of the database raise during it.
\<close>

record faults =
  cache_get_fails :: bool
  cache_set_fails :: bool
  db_create_fails :: bool
  db_cleanup_fails :: bool
  db_read_fails :: bool

text \<open>
  \<open>order_by("-created_at")\<close> asks the database for the rows by descending instant of
  creation and says nothing on rows created at the same instant: their order is the
  database's choice. The model takes the ordering as a parameter; \<open>sorts_by_created_desc\<close>
  is all that the query promises about it.
\<close>

type_synonym ordering = "WeatherQuery list \<Rightarrow> WeatherQuery list"

definition sorts_by_created_desc :: "ordering \<Rightarrow> bool" where
  "sorts_by_created_desc ob \<longleftrightarrow>
     (\<forall>qs. mset (ob qs) = mset qs \<and>
           sorted_wrt (\<lambda>a b. q_created_at a \<ge> q_created_at b) (ob qs))"

text \<open>
  Two orderings a database may give: rows of the same instant in the order of the table
  (a stable sort), and rows of the same instant with the higher primary key first.
\<close>

definition table_order_ties :: ordering where
  "table_order_ties qs = sort_key (\<lambda>q. - q_created_at q) qs"

definition higher_id_first_ties :: ordering where
  "higher_id_first_ties qs =
     sort_key (\<lambda>q. - q_created_at q) (rev (sort_key q_id qs))"

text \<open>\<open>WeatherQuery.objects.filter(city=city, ip_address=ip_address)\<close>.\<close>

definition filter_by :: "ustring \<Rightarrow> ustring \<Rightarrow> WeatherQuery list \<Rightarrow> WeatherQuery list" where
  "filter_by city ip qs = filter (\<lambda>q. q_city q = city \<and> q_ip_address q = ip) qs"

text \<open>
  \<open>WeatherQuery.cleanup_old_queries\<close>. Slicing a queryset from a negative index raises
  \<open>ValueError\<close> in Django.
\<close>

definition WeatherQuery_cleanup_old_queries ::
  "ordering \<Rightarrow> database \<Rightarrow> ustring \<Rightarrow> ustring \<Rightarrow> int \<Rightarrow> exn + database" where
  "WeatherQuery_cleanup_old_queries ob db city ip limit =
     (let queries = ob (filter_by city ip (rows db)) in
      if int (length queries) > limit then
        (if limit < 0 then Inl (ValueError (ustr ''Negative indexing is not supported.''))
         else
           (let old_queries = drop (nat limit) queries in
            Inr (db\<lparr>rows := filter (\<lambda>q. q_id q \<notin> set (map q_id old_queries)) (rows db)\<rparr>)))
      else Inr db)"

section \<open>\<open>apps/weather/repositories.py\<close>\<close>

subsection \<open>DjangoWeatherQueryRepository\<close>

text \<open>\<open>weather_data.get(key, default)\<close>.\<close>

definition dict_get :: "dict \<Rightarrow> ustring \<Rightarrow> pyval \<Rightarrow> pyval" where
  "dict_get d key dflt = (case map_of d key of Some v \<Rightarrow> v | None \<Rightarrow> dflt)"

text \<open>
  \<open>WeatherQuery.objects.create(...)\<close> as \<open>save_query\<close> calls it: the row gets the next
  primary key and the present instant.
\<close>

definition new_query :: "database \<Rightarrow> int \<Rightarrow> ustring \<Rightarrow> ustring \<Rightarrow> dict \<Rightarrow> WeatherQuery" where
  "new_query db now city ip weather_data =
     \<lparr>q_id = next_id db, q_city = city, q_ip_address = ip,
      q_temperature = dict_get weather_data (ustr ''temperature'') (PInt 0),
      q_description = dict_get weather_data (ustr ''description'') (PStr []),
      q_humidity = dict_get weather_data (ustr ''humidity'') PNone,
      q_pressure = dict_get weather_data (ustr ''pressure'') PNone,
      q_wind_speed = dict_get weather_data (ustr ''wind_speed'') PNone,
      q_country = dict_get weather_data (ustr ''country'') (PStr []),
      q_created_at = now\<rparr>"

definition objects_create :: "database \<Rightarrow> WeatherQuery \<Rightarrow> database" where
  "objects_create db query = db\<lparr>rows := rows db @ [query], next_id := Suc (next_id db)\<rparr>"

text \<open>\<open>save_query\<close>: a failure of the database is logged and raised again.\<close>

definition save_query ::
  "faults \<Rightarrow> database \<Rightarrow> int \<Rightarrow> ustring \<Rightarrow> ustring \<Rightarrow> dict \<Rightarrow> exn + (WeatherQuery \<times> database)" where
  "save_query F db now city ip weather_data =
     (if db_create_fails F then Inl (DatabaseError (ustr ''create failed''))
      else
        (let query = new_query db now city ip weather_data
         in Inr (query, objects_create db query)))"

text \<open>
  \<open>get_history\<close>: the slice \<open>[:limit]\<close> of the ordered rows; any exception (a failing read,
  the \<open>ValueError\<close> of a negative limit) is logged and answered by the empty list.
\<close>

definition get_history ::
  "faults \<Rightarrow> ordering \<Rightarrow> database \<Rightarrow> ustring \<Rightarrow> ustring \<Rightarrow> int \<Rightarrow> WeatherQuery list" where
  "get_history F ob db city ip limit =
     (if db_read_fails F \<or> limit < 0 then []
      else take (nat limit) (ob (filter_by city ip (rows db))))"

text \<open>The repository's \<open>cleanup_old_queries\<close>: any exception is logged and swallowed.\<close>

definition cleanup_old_queries ::
  "faults \<Rightarrow> ordering \<Rightarrow> database \<Rightarrow> ustring \<Rightarrow> ustring \<Rightarrow> int \<Rightarrow> database" where
  "cleanup_old_queries F ob db city ip limit =
     (if db_cleanup_fails F then db
      else (case WeatherQuery_cleanup_old_queries ob db city ip limit of
              Inl e \<Rightarrow> db
            | Inr db' \<Rightarrow> db'))"

subsection \<open>RedisWeatherCacheRepository\<close>

definition get_cache_key :: "pylib \<Rightarrow> ustring \<Rightarrow> ustring" where
  "get_cache_key L city = ustr ''weather_cache:'' @ str_lower L city"

text \<open>
  \<open>get_cached_weather\<close>: the stored text is never empty, so the test \<open>if cached_data\<close> holds
  for every entry found; any exception is logged and answered by \<open>None\<close>.
\<close>

definition get_cached_weather :: "pylib \<Rightarrow> faults \<Rightarrow> dict cache \<Rightarrow> int \<Rightarrow> ustring \<Rightarrow> dict option" where
  "get_cached_weather L F c now city =
     (if cache_get_fails F then None
      else cache_get c now (get_cache_key L city))"

text \<open>
  \<open>cache_weather\<close>: the caller's dict receives the key \<open>cached_at\<close> before the store is
  written, so it keeps it when the write fails; any exception is logged and swallowed.
  The result is the store and the caller's dict after the call.
\<close>

definition cache_weather ::
  "pylib \<Rightarrow> faults \<Rightarrow> dict cache \<Rightarrow> int \<Rightarrow> ustring \<Rightarrow> dict \<Rightarrow> int \<Rightarrow> dict cache \<times> dict" where
  "cache_weather L F c now city weather_data ttl_seconds =
     (let cache_key = get_cache_key L city;
          weather_data' = AList.update (ustr ''cached_at'') (PStr (isoformat L now)) weather_data
      in if cache_set_fails F then (c, weather_data')
         else (cache_set c now cache_key (dumps_loads_dict L weather_data') ttl_seconds,
               weather_data'))"

definition invalidate_cache :: "pylib \<Rightarrow> dict cache \<Rightarrow> ustring \<Rightarrow> dict cache" where
  "invalidate_cache L c city = cache_delete c (get_cache_key L city)"

section \<open>\<open>apps/weather/usecases.py\<close>\<close>

text \<open>
  The state that a request works on: the weather cache, the history table, and the log of
  the cities for which the provider was called.
\<close>

record world =
  w_cache :: "dict cache"
  w_db :: database
  w_provider_calls :: "ustring list"

text \<open>\<open>city.strip().title()\<close>, the first statement of every use case.\<close>

definition normalize_city :: "pylib \<Rightarrow> ustring \<Rightarrow> ustring" where
  "normalize_city L city = str_title L (str_strip city)"

definition ONE_MINUTE :: int where
  "ONE_MINUTE = 60"

text \<open>\<open>GetWeatherUseCase._save_to_history\<close>: whatever the two calls raise is logged.\<close>

definition save_to_history ::
  "faults \<Rightarrow> ordering \<Rightarrow> database \<Rightarrow> int \<Rightarrow> ustring \<Rightarrow> ustring \<Rightarrow> dict \<Rightarrow> database" where
  "save_to_history F ob db now city ip weather_data =
     (case save_query F db now city ip weather_data of
        Inl e \<Rightarrow> db
      | Inr (query, db') \<Rightarrow> cleanup_old_queries F ob db' city ip 10)"

text \<open>The metadata that both branches write into the dict they return.\<close>

definition add_metadata :: "bool \<Rightarrow> int \<Rightarrow> dict \<Rightarrow> dict" where
  "add_metadata cached now d =
     AList.update (ustr ''timestamp'') (PDateTime now)
       (AList.update (ustr ''cached'') (PBool cached) d)"

text \<open>
  The cache-miss branch of \<open>GetWeatherUseCase.execute\<close>, for the normalized city. The
  provider is a function of the city; its exception passes unchanged when it is a
  \<open>WeatherServiceException\<close> and is wrapped into one otherwise (\<open>231\<close> is c-cedilla).
\<close>

definition execute_miss ::
  "pylib \<Rightarrow> ordering \<Rightarrow> (ustring \<Rightarrow> exn + dict) \<Rightarrow> faults \<Rightarrow> int \<Rightarrow> ustring \<Rightarrow> ustring \<Rightarrow> world
     \<Rightarrow> (exn + dict) \<times> world" where
  "execute_miss L ob weather_service F now city ip w =
     (let w1 = w\<lparr>w_provider_calls := w_provider_calls w @ [city]\<rparr> in
      case weather_service city of
        Inl (WeatherServiceException m) \<Rightarrow> (Inl (WeatherServiceException m), w1)
      | Inl e \<Rightarrow>
          (Inl (WeatherServiceException
                  (ustr ''Erro interno do servi'' @ [231] @ ustr ''o: '' @ str_exn L e)), w1)
      | Inr weather_data \<Rightarrow>
          (case cache_weather L F (w_cache w1) now city weather_data ONE_MINUTE of
             (c', weather_data') \<Rightarrow>
               (let db' = save_to_history F ob (w_db w1) now city ip weather_data'
                in (Inr (add_metadata False now weather_data'),
                    w1\<lparr>w_cache := c', w_db := db'\<rparr>))))"

text \<open>
  \<open>GetWeatherUseCase.execute\<close>. The test \<open>if cached_data\<close> holds for a dict that is not
  empty.
\<close>

definition GetWeatherUseCase_execute ::
  "pylib \<Rightarrow> ordering \<Rightarrow> (ustring \<Rightarrow> exn + dict) \<Rightarrow> faults \<Rightarrow> int \<Rightarrow> ustring \<Rightarrow> ustring \<Rightarrow> world
     \<Rightarrow> (exn + dict) \<times> world" where
  "GetWeatherUseCase_execute L ob weather_service F now city0 ip w =
     (let city = normalize_city L city0 in
      case get_cached_weather L F (w_cache w) now city of
        Some cached_data \<Rightarrow>
          if cached_data \<noteq> [] then (Inr (add_metadata True now cached_data), w)
          else execute_miss L ob weather_service F now city ip w
      | None \<Rightarrow> execute_miss L ob weather_service F now city ip w)"

text \<open>
  The use case finds nothing usable in the cache: the read fails, no live entry is stored
  under the key of the city, or the entry is an empty dict.
\<close>

definition cache_miss :: "pylib \<Rightarrow> faults \<Rightarrow> world \<Rightarrow> int \<Rightarrow> ustring \<Rightarrow> bool" where
  "cache_miss L F w now city0 \<longleftrightarrow>
     (case get_cached_weather L F (w_cache w) now (normalize_city L city0) of
        None \<Rightarrow> True
      | Some cached_data \<Rightarrow> cached_data = [])"

text \<open>
  What the cache-miss branch returns for the dict of the provider: the dict with the key
  \<open>cached_at\<close> that \<open>cache_weather\<close> wrote into it, and the metadata.
\<close>

definition fresh_data :: "pylib \<Rightarrow> int \<Rightarrow> dict \<Rightarrow> dict" where
  "fresh_data L now weather_data =
     add_metadata False now
       (AList.update (ustr ''cached_at'') (PStr (isoformat L now)) weather_data)"

text \<open>
  \<open>GetWeatherHistoryUseCase.execute\<close>. The repository answers a failure by the empty list,
  so the \<open>except\<close> branch of the use case is never entered.
\<close>

record history_data =
  h_city :: ustring
  h_queries :: "WeatherQuery list"
  h_total :: nat
  h_limit :: int

definition GetWeatherHistoryUseCase_execute ::
  "pylib \<Rightarrow> faults \<Rightarrow> ordering \<Rightarrow> database \<Rightarrow> ustring \<Rightarrow> ustring \<Rightarrow> int \<Rightarrow> history_data" where
  "GetWeatherHistoryUseCase_execute L F ob db city0 ip limit =
     (let city = normalize_city L city0;
          queries = get_history F ob db city ip limit
      in \<lparr>h_city = city, h_queries = queries, h_total = length queries, h_limit = limit\<rparr>)"

section \<open>\<open>apps/weather/views.py\<close>: WeatherHistoryView\<close>

text \<open>
  The query parameter \<open>limit\<close> is missing or a text. \<open>int(text)\<close> is Python's; the view
  takes it as the parameter \<open>py_int\<close>, which answers \<open>None\<close> where Python raises
  \<open>ValueError\<close>.
\<close>

datatype query_param = Missing | Given ustring

definition view_limit :: "(ustring \<Rightarrow> int option) \<Rightarrow> query_param \<Rightarrow> int" where
  "view_limit py_int p =
     (case (case p of Missing \<Rightarrow> Some 10 | Given text \<Rightarrow> py_int text) of
        Some limit \<Rightarrow> if limit < 1 \<or> limit > 50 then 10 else limit
      | None \<Rightarrow> 10)"

text \<open>
  \<open>WeatherHistoryView.get\<close>, up to the data it hands to the serializer: \<open>None\<close> stands for the
  answer 400 to a missing or empty city.
\<close>

definition WeatherHistoryView_get ::
  "pylib \<Rightarrow> (ustring \<Rightarrow> int option) \<Rightarrow> faults \<Rightarrow> ordering \<Rightarrow> database
     \<Rightarrow> query_param \<Rightarrow> query_param \<Rightarrow> ustring \<Rightarrow> history_data option" where
  "WeatherHistoryView_get L py_int F ob db city_param limit_param ip =
     (case city_param of
        Missing \<Rightarrow> None
      | Given city0 \<Rightarrow>
          if city0 = [] then None
          else
            (let limit = view_limit py_int limit_param;
                 city = normalize_city L city0
             in Some (GetWeatherHistoryUseCase_execute L F ob db city ip limit)))"

text \<open>What the specification calls clamping to the interval from 1 to 50.\<close>

definition clamp_1_50 :: "int \<Rightarrow> int" where
  "clamp_1_50 n = max 1 (min 50 n)"

section \<open>Runs of history writes\<close>

text \<open>
  The database hands out primary keys in increasing order: the keys of the rows are
  distinct and below the next key.
\<close>

definition well_formed :: "database \<Rightarrow> bool" where
  "well_formed db \<longleftrightarrow>
     distinct (map q_id (rows db)) \<and> (\<forall>q \<in> set (rows db). q_id q < next_id db)"

text \<open>
  The history writes of a run of cache-miss calls of \<open>GetWeatherUseCase.execute\<close> for one
  normalized city and one client: each call, at its instant and with the dict it got,
  runs \<open>_save_to_history\<close>. \<open>created_rows\<close> lists the rows that the run creates when no
  write fails.
\<close>

fun record_fetches ::
  "faults \<Rightarrow> ordering \<Rightarrow> database \<Rightarrow> ustring \<Rightarrow> ustring \<Rightarrow> (int \<times> dict) list \<Rightarrow> database" where
  "record_fetches F ob db city ip [] = db"
| "record_fetches F ob db city ip ((now, weather_data) # rest) =
     record_fetches F ob (save_to_history F ob db now city ip weather_data) city ip rest"

fun created_rows ::
  "database \<Rightarrow> ustring \<Rightarrow> ustring \<Rightarrow> (int \<times> dict) list \<Rightarrow> WeatherQuery list" where
  "created_rows db city ip [] = []"
| "created_rows db city ip ((now, weather_data) # rest) =
     new_query db now city ip weather_data
       # created_rows (db\<lparr>next_id := Suc (next_id db)\<rparr>) city ip rest"

section \<open>Concrete inputs\<close>

text \<open>The settings of \<open>settings/base.py\<close>: five requests in sixty seconds, outside of tests.\<close>

definition settings0 :: settings where
  "settings0 = \<lparr>RATE_LIMIT_REQUESTS = 5, RATE_LIMIT_WINDOW = 60, TESTING = False,
     BDD_RATE_LIMITING_ENABLED = False\<rparr>"

text \<open>A request for the path of an endpoint from a direct client.\<close>

definition request_to :: "string \<Rightarrow> ustring \<Rightarrow> request" where
  "request_to p ip = \<lparr>path = ustr p, HTTP_X_FORWARDED_FOR = None, REMOTE_ADDR = Some ip\<rparr>"

definition weather_request :: "ustring \<Rightarrow> request" where
  "weather_request ip = request_to ''/api/v1/weather/'' ip"

definition client0 :: ustring where
  "client0 = ustr ''1.2.3.4''"

text \<open>
  The Unicode data of Python 3.11, given in full for the code points U+0000 to U+00FF and for
  U+01F0 (small j with caron, 496) and U+030C (combining caron, 780); the other code points
  are left without case. The four functions of \<open>py311\<close> that are not Unicode data are
  stand-ins: nothing that is proved with this record depends on them.
\<close>

definition unicode_title :: "nat \<Rightarrow> nat list" where
  "unicode_title c =
     (if (97 \<le> c \<and> c \<le> 122) \<or> (224 \<le> c \<and> c \<le> 246) \<or> (248 \<le> c \<and> c \<le> 254) then [c - 32]
      else if c = 181 then [924]
      else if c = 223 then [83, 115]
      else if c = 255 then [376]
      else if c = 496 then [74, 780]
      else [c])"

definition unicode_lower :: "nat \<Rightarrow> nat list" where
  "unicode_lower c =
     (if (65 \<le> c \<and> c \<le> 90) \<or> (192 \<le> c \<and> c \<le> 214) \<or> (216 \<le> c \<and> c \<le> 222) then [c + 32]
      else [c])"

definition unicode_cased :: "nat \<Rightarrow> bool" where
  "unicode_cased c \<longleftrightarrow>
     (65 \<le> c \<and> c \<le> 90) \<or> (97 \<le> c \<and> c \<le> 122) \<or> c = 170 \<or> c = 181 \<or> c = 186 \<or>
     (192 \<le> c \<and> c \<le> 214) \<or> (216 \<le> c \<and> c \<le> 246) \<or> (248 \<le> c \<and> c \<le> 255) \<or> c = 496"

definition unicode_case_ignorable :: "nat \<Rightarrow> bool" where
  "unicode_case_ignorable c \<longleftrightarrow>
     c \<in> set [39, 46, 58, 94, 96, 168, 173, 175, 180, 183, 184, 780]"

definition py311 :: pylib where
  "py311 = \<lparr>to_title = unicode_title, to_lower = unicode_lower, is_cased = unicode_cased,
     is_case_ignorable = unicode_case_ignorable,
     isoformat = (\<lambda>t. str_nat (nat t)), str_datetime = (\<lambda>t. str_nat (nat t)),
     round1 = (\<lambda>x. x), repr = (\<lambda>v. [])\<rparr>"

text \<open>The three spellings of the specification, and the name with the small j with caron.\<close>

definition sao_paulo_lower :: ustring where
  "sao_paulo_lower = [115, 227, 111, 32, 112, 97, 117, 108, 111]"

definition sao_paulo_padded :: ustring where
  "sao_paulo_padded = [32, 83, 227, 111, 32, 80, 97, 117, 108, 111, 32]"

definition sao_paulo_upper :: ustring where
  "sao_paulo_upper = [83, 195, 79, 32, 80, 65, 85, 76, 79]"

definition sao_paulo :: ustring where
  "sao_paulo = [83, 227, 111, 32, 80, 97, 117, 108, 111]"

definition j_caron_x :: ustring where
  "j_caron_x = [496, 120]"

text \<open>
  A reading of \<open>int(text)\<close> for ASCII text: an optional sign and decimal digits. Python
  accepts more (white space around the number, underscores between digits, the digits of
  other scripts); on the texts used below the two agree.
\<close>

definition ascii_digits :: "ustring \<Rightarrow> nat option" where
  "ascii_digits s =
     (if s \<noteq> [] \<and> list_all (\<lambda>c. 48 \<le> c \<and> c \<le> 57) s
      then Some (foldl (\<lambda>a c. 10 * a + (c - 48)) 0 s) else None)"

definition ascii_int :: "ustring \<Rightarrow> int option" where
  "ascii_int s =
     (case s of
        [] \<Rightarrow> None
      | c # cs \<Rightarrow>
          if c = 45 then map_option (\<lambda>n. - int n) (ascii_digits cs)
          else if c = 43 then map_option int (ascii_digits cs)
          else map_option int (ascii_digits s))"

definition no_faults :: faults where
  "no_faults = \<lparr>cache_get_fails = False, cache_set_fails = False, db_create_fails = False,
     db_cleanup_fails = False, db_read_fails = False\<rparr>"

definition empty_db :: database where
  "empty_db = \<lparr>rows = [], next_id = 1\<rparr>"

text \<open>Worlds and a provider for concrete runs of the use cases.\<close>

definition world0 :: world where
  "world0 = \<lparr>w_cache = Map.empty, w_db = empty_db, w_provider_calls = []\<rparr>"

definition cached_entry :: dict where
  "cached_entry = [(ustr ''city'', PStr sao_paulo), (ustr ''temperature'', PFloat 25)]"

definition world_hit :: world where
  "world_hit = \<lparr>w_cache = [get_cache_key py311 sao_paulo \<mapsto> (cached_entry, 100)],
     w_db = empty_db, w_provider_calls = []\<rparr>"

definition mock :: "ustring \<Rightarrow> exn + dict" where
  "mock = MockWeatherService_get_weather py311"

definition mock_sao_paulo :: dict where
  "mock_sao_paulo =
     [(ustr ''city'', PStr sao_paulo),
      (ustr ''country'', PStr (ustr ''BR'')),
      (ustr ''temperature'', PFloat 25),
      (ustr ''description'', PStr (ustr ''Ensolarado'')),
      (ustr ''humidity'', PInt 60),
      (ustr ''pressure'', PFloat (101325 / 100)),
      (ustr ''wind_speed'', PFloat (55 / 10)),
      (ustr ''provider'', PStr (ustr ''mock'')),
      (ustr ''raw_data'', PDict [(ustr ''mock'', PBool True)])]"

definition cache_down :: faults where
  "cache_down = no_faults\<lparr>cache_get_fails := True, cache_set_fails := True\<rparr>"

definition db_down :: faults where
  "db_down = no_faults\<lparr>db_create_fails := True, db_cleanup_fails := True\<rparr>"

text \<open>Two history rows of one city and client that were created at the same instant.\<close>

definition tied_row :: "nat \<Rightarrow> WeatherQuery" where
  "tied_row i = \<lparr>q_id = i, q_city = sao_paulo, q_ip_address = client0,
     q_temperature = PFloat 25, q_description = PStr [], q_humidity = PNone,
     q_pressure = PNone, q_wind_speed = PNone, q_country = PStr [], q_created_at = 5\<rparr>"

definition tied_db :: database where
  "tied_db = \<lparr>rows = [tied_row 1, tied_row 2], next_id = 3\<rparr>"

text \<open>Eleven fetches, one a second, and eleven fetches within one tick of the clock.\<close>

definition eleven_fetches :: "(int \<times> dict) list" where
  "eleven_fetches = map (\<lambda>t. (t, mock_sao_paulo)) [1, 2, 3, 4, 5, 6, 7, 8, 9, 10, 11]"

definition eleven_at_once :: "(int \<times> dict) list" where
  "eleven_at_once = replicate 11 (0, mock_sao_paulo)"

text \<open>
  Two bodies of a response with status 200: the current weather of the city as
  OpenWeatherMap sends it (reduced to the fields that are read), and the same body with an empty \<open>weather\<close> list.
\<close>

definition payload_ok :: pyval where
  "payload_ok = PDict
     [(ustr ''name'', PStr sao_paulo),
      (ustr ''sys'', PDict [(ustr ''country'', PStr (ustr ''BR''))]),
      (ustr ''main'', PDict [(ustr ''temp'', PFloat 25), (ustr ''humidity'', PInt 60),
                             (ustr ''pressure'', PInt 1013)]),
      (ustr ''weather'', PList [PDict [(ustr ''description'', PStr (ustr ''nublado''))]]),
      (ustr ''wind'', PDict [(ustr ''speed'', PFloat (55 / 10))])]"

definition payload_empty_weather :: pyval where
  "payload_empty_weather = PDict
     [(ustr ''name'', PStr sao_paulo),
      (ustr ''sys'', PDict [(ustr ''country'', PStr (ustr ''BR''))]),
      (ustr ''main'', PDict [(ustr ''temp'', PFloat 25), (ustr ''humidity'', PInt 60),
                             (ustr ''pressure'', PInt 1013)]),
      (ustr ''weather'', PList []),
      (ustr ''wind'', PDict [(ustr ''speed'', PFloat (55 / 10))])]"

definition openweathermap :: "http_result \<Rightarrow> ustring \<Rightarrow> exn + dict" where
  "openweathermap http = OpenWeatherMapService_get_weather py311 (ustr ''test-key'') http"

section \<open>The rate limiter\<close>

lemma limited_request_not_exempt:
  "limited_request S r \<Longrightarrow> path r \<notin> set [ustr ''/health/'', ustr ''/metrics'']"
  by (auto simp: limited_request_def ustr_def)

lemma call_limited:
  assumes "limited_request S r"
  shows "RateLimitMiddleware_call S c now r =
           (if is_rate_limited S c now (get_client_ip r) then (TooManyRequests, c)
            else (Forward, record_request S c now (get_client_ip r)))"
proof -
  from assms have "path r \<notin> set [ustr ''/health/'', ustr ''/metrics'']"
    by (rule limited_request_not_exempt)
  with assms show ?thesis
    unfolding RateLimitMiddleware_call_def limited_request_def Let_def by presburger
qed

lemma call_unlimited:
  assumes "\<not> limited_request S r"
  shows "RateLimitMiddleware_call S c now r = (Forward, c)"
  using assms unfolding RateLimitMiddleware_call_def limited_request_def by auto

lemma current_requests_bounded:
  assumes "counters_bounded S c" and "0 \<le> RATE_LIMIT_REQUESTS S"
  shows "current_requests c t ip \<le> RATE_LIMIT_REQUESTS S"
  using assms
  unfolding counters_bounded_def current_requests_def cache_get_default_def cache_get_def
  by (auto split: option.splits)

lemma current_after_record:
  "current_requests (record_request S c now ip) t ip =
     (if t < now + RATE_LIMIT_WINDOW S then current_requests c now ip + 1 else 0)"
  by (simp add: current_requests_def record_request_def cache_set_def cache_get_default_def
        cache_get_def)

lemma record_request_other_key:
  "k \<noteq> rate_limit_key ip \<Longrightarrow> record_request S c now ip k = c k"
  by (simp add: record_request_def cache_set_def)

lemma call_keeps_bound:
  assumes "counters_bounded S c"
  shows "counters_bounded S (snd (RateLimitMiddleware_call S c now r))"
proof (cases "limited_request S r")
  case False
  then show ?thesis using assms by (simp add: call_unlimited)
next
  case True
  show ?thesis
  proof (cases "is_rate_limited S c now (get_client_ip r)")
    case True
    with \<open>limited_request S r\<close> assms show ?thesis by (simp add: call_limited)
  next
    case False
    then have below: "current_requests c now (get_client_ip r) < RATE_LIMIT_REQUESTS S"
      by (simp add: is_rate_limited_def)
    have "counters_bounded S (record_request S c now (get_client_ip r))"
      using assms below unfolding counters_bounded_def record_request_def cache_set_def
      by auto
    with False \<open>limited_request S r\<close> show ?thesis by (simp add: call_limited)
  qed
qed

lemma serve_keeps_bound:
  "counters_bounded S c \<Longrightarrow> counters_bounded S (snd (serve S c attempts))"
proof (induction attempts arbitrary: c)
  case Nil
  then show ?case by simp
next
  case (Cons a attempts)
  obtain now r where a: "a = (now, r)" by (cases a)
  obtain v c' where step: "RateLimitMiddleware_call S c now r = (v, c')"
    by (cases "RateLimitMiddleware_call S c now r")
  have "counters_bounded S c'"
    using call_keeps_bound [OF Cons.prems, of now r] step by simp
  then have "counters_bounded S (snd (serve S c' attempts))" by (rule Cons.IH)
  then show ?case using a step by (auto split: prod.splits)
qed

lemma limited_weather_request: "limited_request settings0 (weather_request ip)"
  by (simp add: limited_request_def settings0_def weather_request_def request_to_def)

lemma weather_request_ip: "get_client_ip (weather_request ip) = Some ip"
  by (simp add: get_client_ip_def weather_request_def request_to_def)

lemma call_weather_request:
  "RateLimitMiddleware_call settings0 c now (weather_request ip) =
     (if 5 \<le> current_requests c now (Some ip) then (TooManyRequests, c)
      else (Forward, cache_set c now (rate_limit_key (Some ip))
                       (current_requests c now (Some ip) + 1) 60))"
  unfolding call_limited [OF limited_weather_request] weather_request_ip is_rate_limited_def
    record_request_def
  by (simp add: settings0_def)

text \<open>
  C2, as the claim states it, fails. With five requests allowed in sixty seconds, a client
  asks at the instants 0 and 59. Sixty seconds after the request that started the window,
  at the instant 60, the claim has the counter back at zero; the counter reads 2, because
  the request at 59 stored the counter anew with a full lifetime. A client that asks every
  59 seconds is refused the sixth time, at the instant 295, although the window that
  started at 0 has long passed.
\<close>

theorem rate_limit_window_counterexample:
  "current_requests
     (snd (serve settings0 Map.empty [(0, weather_request client0), (59, weather_request client0)]))
     60 (Some client0) = 2 \<and>
   fst (serve settings0 Map.empty
        (map (\<lambda>t. (t, weather_request client0)) [0, 59, 118, 177, 236, 295]))
     = [Forward, Forward, Forward, Forward, Forward, TooManyRequests]"
  by (simp add: call_weather_request current_requests_def cache_get_default_def cache_get_def
        cache_set_def)

text \<open>
  C2, amended. For a limit that is not negative and a store whose counters are within the
  limit (the empty store is one), after any run of attempts, from any clients at any
  instants, every counter reads at most the limit at every instant. An attempt on the
  weather endpoint is refused exactly when the client's counter, read at the instant of
  the attempt, has reached the limit; a refused attempt leaves the store as it is. An
  admitted attempt stores the counter plus one with a lifetime of \<open>RATE_LIMIT_WINDOW\<close>
  seconds from that attempt: from then on the counter reads the new value until the
  window has passed since this latest admitted attempt, and zero afterwards. The counters
  of the other clients are never touched.
\<close>

theorem rate_limit_counter:
  assumes "0 \<le> RATE_LIMIT_REQUESTS S" and "counters_bounded S c" and "limited_request S r"
  shows "current_requests (snd (serve S c attempts)) t ip \<le> RATE_LIMIT_REQUESTS S \<and>
         (fst (RateLimitMiddleware_call S c now r) = TooManyRequests
            \<longleftrightarrow> current_requests c now (get_client_ip r) \<ge> RATE_LIMIT_REQUESTS S) \<and>
         (fst (RateLimitMiddleware_call S c now r) = TooManyRequests
            \<longrightarrow> snd (RateLimitMiddleware_call S c now r) = c) \<and>
         (fst (RateLimitMiddleware_call S c now r) = Forward
            \<longrightarrow> current_requests (snd (RateLimitMiddleware_call S c now r)) t (get_client_ip r) =
                 (if t < now + RATE_LIMIT_WINDOW S
                  then current_requests c now (get_client_ip r) + 1 else 0)) \<and>
         (\<forall>k. k \<noteq> rate_limit_key (get_client_ip r)
            \<longrightarrow> snd (RateLimitMiddleware_call S c now r) k = c k)"
proof -
  have bound: "current_requests (snd (serve S c attempts)) t ip \<le> RATE_LIMIT_REQUESTS S"
    using serve_keeps_bound [OF assms(2)] assms(1) by (rule current_requests_bounded)
  show ?thesis
  proof (cases "is_rate_limited S c now (get_client_ip r)")
    case True
    then show ?thesis using bound assms(3)
      by (simp add: call_limited is_rate_limited_def)
  next
    case False
    then show ?thesis using bound assms(3)
      by (simp add: call_limited is_rate_limited_def current_after_record
            record_request_other_key)
  qed
qed

theorem rate_limit_counter_witness:
  "0 \<le> RATE_LIMIT_REQUESTS settings0 \<and> counters_bounded settings0 Map.empty \<and>
   limited_request settings0 (weather_request client0) \<and>
   current_requests (snd (serve settings0 Map.empty
        [(0, weather_request client0), (59, weather_request client0)])) 60 (Some client0) \<le> 5 \<and>
   fst (RateLimitMiddleware_call settings0 Map.empty 0 (weather_request client0)) = Forward \<and>
   current_requests (snd (RateLimitMiddleware_call settings0 Map.empty 0 (weather_request client0)))
     60 (Some client0) = 0"
proof -
  have a: "0 \<le> RATE_LIMIT_REQUESTS settings0" by (simp add: settings0_def)
  have b: "counters_bounded settings0 Map.empty" by (simp add: counters_bounded_def)
  have c: "limited_request settings0 (weather_request client0)" by (rule limited_weather_request)
  have d: "fst (RateLimitMiddleware_call settings0 Map.empty 0 (weather_request client0)) = Forward"
    by (simp add: call_weather_request current_requests_def cache_get_default_def cache_get_def)
  have w: "RATE_LIMIT_WINDOW settings0 = 60" "RATE_LIMIT_REQUESTS settings0 = 5"
    by (simp_all add: settings0_def)
  from rate_limit_counter [OF a b c,
      of "[(0, weather_request client0), (59, weather_request client0)]" 60 "Some client0" 0] a b c d
  show ?thesis by (simp add: weather_request_ip w)
qed

lemma other_endpoints_not_weather:
  "ustr ''/api/v1/weather/history/'' \<noteq> ustr ''/api/v1/weather/''"
  "ustr ''/api/v1/weather/cache/'' \<noteq> ustr ''/api/v1/weather/''"
  "ustr ''/health/'' \<noteq> ustr ''/api/v1/weather/''"
  "ustr ''/metrics'' \<noteq> ustr ''/api/v1/weather/''"
  "\<not> prefix (ustr ''/api/v1/weather/?'') (ustr ''/api/v1/weather/history/'')"
  "\<not> prefix (ustr ''/api/v1/weather/?'') (ustr ''/api/v1/weather/cache/'')"
  "\<not> prefix (ustr ''/api/v1/weather/?'') (ustr ''/health/'')"
  "\<not> prefix (ustr ''/api/v1/weather/?'') (ustr ''/metrics'')"
  by (simp_all add: ustr_def)

lemma other_endpoints_unlimited:
  assumes "path r \<in> set [ustr ''/api/v1/weather/history/'', ustr ''/api/v1/weather/cache/'',
                          ustr ''/health/'', ustr ''/metrics'']"
  shows "\<not> limited_request S r"
proof -
  from assms consider "path r = ustr ''/api/v1/weather/history/''"
    | "path r = ustr ''/api/v1/weather/cache/''" | "path r = ustr ''/health/''"
    | "path r = ustr ''/metrics''"
    by fastforce
  then show ?thesis
    by cases (simp_all only: limited_request_def other_endpoints_not_weather simp_thms)
qed

text \<open>
  C10. A request to the history endpoint, the cache endpoint, the health endpoint or the
  metrics endpoint is handed on and the store of counters stays as it was; and whenever
  the middleware refuses a request or changes the store, the path of the request is
  \<open>/api/v1/weather/\<close> or starts with \<open>/api/v1/weather/?\<close>.
\<close>

theorem rate_limit_only_weather_endpoint:
  "(path r \<in> set [ustr ''/api/v1/weather/history/'', ustr ''/api/v1/weather/cache/'',
                   ustr ''/health/'', ustr ''/metrics'']
      \<longrightarrow> RateLimitMiddleware_call S c now r = (Forward, c)) \<and>
   (RateLimitMiddleware_call S c now r \<noteq> (Forward, c)
      \<longrightarrow> path r = ustr ''/api/v1/weather/'' \<or> prefix (ustr ''/api/v1/weather/?'') (path r))"
proof (intro conjI impI)
  assume "path r \<in> set [ustr ''/api/v1/weather/history/'', ustr ''/api/v1/weather/cache/'',
                         ustr ''/health/'', ustr ''/metrics'']"
  then have "\<not> limited_request S r" by (rule other_endpoints_unlimited)
  then show "RateLimitMiddleware_call S c now r = (Forward, c)" by (rule call_unlimited)
next
  assume "RateLimitMiddleware_call S c now r \<noteq> (Forward, c)"
  then have "limited_request S r" using call_unlimited by blast
  then show "path r = ustr ''/api/v1/weather/'' \<or> prefix (ustr ''/api/v1/weather/?'') (path r)"
    unfolding limited_request_def by blast
qed

theorem rate_limit_only_weather_endpoint_witness:
  "path (request_to ''/api/v1/weather/history/'' client0)
     \<in> set [ustr ''/api/v1/weather/history/'', ustr ''/api/v1/weather/cache/'',
            ustr ''/health/'', ustr ''/metrics''] \<and>
   RateLimitMiddleware_call settings0 Map.empty 0 (request_to ''/api/v1/weather/history/'' client0)
     = (Forward, Map.empty) \<and>
   RateLimitMiddleware_call (settings0\<lparr>RATE_LIMIT_REQUESTS := 0\<rparr>) Map.empty 0
       (weather_request client0) \<noteq> (Forward, Map.empty) \<and>
   path (weather_request client0) = ustr ''/api/v1/weather/''"
proof -
  have a: "path (request_to ''/api/v1/weather/history/'' client0)
     \<in> set [ustr ''/api/v1/weather/history/'', ustr ''/api/v1/weather/cache/'',
            ustr ''/health/'', ustr ''/metrics'']"
    by (simp add: request_to_def)
  have b: "RateLimitMiddleware_call (settings0\<lparr>RATE_LIMIT_REQUESTS := 0\<rparr>) Map.empty 0
       (weather_request client0) \<noteq> (Forward, Map.empty)"
    by (simp add: RateLimitMiddleware_call_def weather_request_def request_to_def settings0_def
          ustr_def is_rate_limited_def current_requests_def cache_get_default_def cache_get_def)
  from rate_limit_only_weather_endpoint
    [of "request_to ''/api/v1/weather/history/'' client0" settings0 Map.empty 0]
    rate_limit_only_weather_endpoint
    [of "weather_request client0" "settings0\<lparr>RATE_LIMIT_REQUESTS := 0\<rparr>" Map.empty 0] a b
  show ?thesis by (simp add: weather_request_def request_to_def)
qed

section \<open>City names\<close>

lemma dropWhile_rev_last:
  "xs \<noteq> [] \<Longrightarrow> \<not> P (last xs) \<Longrightarrow> dropWhile P (rev xs) = rev xs"
  by (cases xs rule: rev_cases) simp_all

lemma strip_fixed:
  assumes "s = [] \<or> (\<not> is_space (hd s) \<and> \<not> is_space (last s))"
  shows "str_strip s = s"
proof (cases s)
  case Nil
  then show ?thesis by (simp add: str_strip_def)
next
  case (Cons c cs)
  with assms have h: "\<not> is_space (hd s)" and l: "\<not> is_space (last s)" by auto
  from Cons h have "dropWhile is_space s = s" by simp
  moreover have "dropWhile is_space (rev s) = rev s"
    using Cons l by (intro dropWhile_rev_last) simp_all
  ultimately show ?thesis by (simp add: str_strip_def)
qed

lemma strip_ends:
  assumes "str_strip s \<noteq> []"
  shows "\<not> is_space (hd (str_strip s)) \<and> \<not> is_space (last (str_strip s))"
proof -
  let ?d = "dropWhile is_space s"
  let ?e = "dropWhile is_space (rev ?d)"
  from assms have e: "?e \<noteq> []" by (simp add: str_strip_def)
  have d: "?d \<noteq> []"
  proof
    assume "?d = []"
    then have "?e = []" by (simp only: rev.simps dropWhile.simps)
    with e show False by (simp only: not_True_eq_False simp_thms)
  qed
  have "\<not> is_space (hd ?e)" using e by (rule hd_dropWhile)
  then have last: "\<not> is_space (last (str_strip s))"
    using e by (simp add: str_strip_def last_rev)
  have "last ?e = last (rev ?d)"
    using e by (metis last_appendR takeWhile_dropWhile_id)
  also have "\<dots> = hd ?d" using d by (simp add: last_rev)
  finally have "hd (str_strip s) = hd ?d" using e by (simp add: str_strip_def hd_rev)
  moreover have "\<not> is_space (hd ?d)" using d by (rule hd_dropWhile)
  ultimately show ?thesis using last by simp
qed

lemma set_strip: "set (str_strip s) \<subseteq> set s"
proof
  fix x
  assume "x \<in> set (str_strip s)"
  then have "x \<in> set (dropWhile is_space (rev (dropWhile is_space s)))"
    unfolding str_strip_def set_rev .
  then have "x \<in> set (rev (dropWhile is_space s))" by (rule set_dropWhileD)
  then have "x \<in> set (dropWhile is_space s)" unfolding set_rev .
  then show "x \<in> set s" by (rule set_dropWhileD)
qed

lemma strip_padding:
  assumes "\<forall>c \<in> set pre. is_space c" and "\<forall>c \<in> set post. is_space c"
  shows "str_strip (pre @ s @ post) = str_strip s"
proof -
  have pre: "dropWhile is_space (pre @ s @ post) = dropWhile is_space (s @ post)"
    using assms(1) by (simp add: dropWhile_append2)
  show ?thesis
  proof (cases "\<forall>c \<in> set s. is_space c")
    case True
    then have a: "dropWhile is_space (s @ post) = []" and b: "dropWhile is_space s = []"
      using assms(2) by (simp_all add: dropWhile_eq_Nil_conv)
    show ?thesis by (simp only: str_strip_def pre a b)
  next
    case False
    then obtain x where "x \<in> set s" "\<not> is_space x" by blast
    then have "dropWhile is_space (s @ post) = dropWhile is_space s @ post"
      by (rule dropWhile_append1)
    moreover have "dropWhile is_space (rev post @ ys) = dropWhile is_space ys" for ys
      by (rule dropWhile_append2) (use assms(2) in simp)
    ultimately show ?thesis using pre by (simp add: str_strip_def)
  qed
qed

lemma stable_title:
  assumes "stable_char L c"
  obtains t where "to_title L c = [t]" "to_title L t = [t]" "is_cased L t = is_cased L c"
    "is_space t = is_space c"
  using assms unfolding stable_char_def by (auto split: list.splits)

lemma stable_lower:
  assumes "stable_char L c"
  obtains l where "to_lower L c = [l]" "l \<noteq> 931" "to_lower L l = [l]"
    "is_cased L l = is_cased L c" "is_space l = is_space c"
  using assms unfolding stable_char_def by (auto split: list.splits)

lemma stable_not_sigma: "stable_char L c \<Longrightarrow> c \<noteq> 931"
  by (simp add: stable_char_def)

lemma title_from_stable_step:
  assumes "stable_char L c"
  shows "\<exists>x. title_from L p b (c # cs) = x # title_from L (is_cased L c) (c # b) cs \<and>
             is_cased L x = is_cased L c \<and> is_space x = is_space c \<and>
             (\<forall>b' cs'. title_from L p b' (x # cs')
                         = x # title_from L (is_cased L x) (x # b') cs')"
proof (cases p)
  case True
  from assms obtain l where l: "to_lower L c = [l]" "l \<noteq> 931" "to_lower L l = [l]"
    "is_cased L l = is_cased L c" "is_space l = is_space c" by (rule stable_lower)
  have "title_from L p b (c # cs) = l # title_from L (is_cased L c) (c # b) cs"
    using True l stable_not_sigma [OF assms] by (simp add: lower_ucs4_def)
  moreover have "\<forall>b' cs'. title_from L p b' (l # cs')
                   = l # title_from L (is_cased L l) (l # b') cs'"
    using True l by (simp add: lower_ucs4_def)
  ultimately show ?thesis using l by blast
next
  case False
  from assms obtain t where t: "to_title L c = [t]" "to_title L t = [t]"
    "is_cased L t = is_cased L c" "is_space t = is_space c" by (rule stable_title)
  have "title_from L p b (c # cs) = t # title_from L (is_cased L c) (c # b) cs"
    using False t by simp
  moreover have "\<forall>b' cs'. title_from L p b' (t # cs')
                   = t # title_from L (is_cased L t) (t # b') cs'"
    using False t by simp
  ultimately show ?thesis using t by blast
qed

lemma title_from_spaces:
  "\<forall>c \<in> set s. stable_char L c \<Longrightarrow> map is_space (title_from L p b s) = map is_space s"
proof (induction s arbitrary: p b)
  case Nil
  then show ?case by simp
next
  case (Cons c cs)
  then have "stable_char L c" by simp
  from title_from_stable_step [OF this, of p b cs]
  obtain x where x: "title_from L p b (c # cs) = x # title_from L (is_cased L c) (c # b) cs"
    "is_space x = is_space c" by blast
  with Cons show ?case by simp
qed

lemma title_from_idem:
  "\<forall>c \<in> set s. stable_char L c \<Longrightarrow>
     title_from L p b' (title_from L p b s) = title_from L p b s"
proof (induction s arbitrary: p b b')
  case Nil
  then show ?case by simp
next
  case (Cons c cs)
  then have "stable_char L c" by simp
  from title_from_stable_step [OF this, of p b cs]
  obtain x where x: "title_from L p b (c # cs) = x # title_from L (is_cased L c) (c # b) cs"
    "is_cased L x = is_cased L c"
    "\<forall>b' cs'. title_from L p b' (x # cs') = x # title_from L (is_cased L x) (x # b') cs'"
    by blast
  have "title_from L (is_cased L c) (x # b') (title_from L (is_cased L c) (c # b) cs)
          = title_from L (is_cased L c) (c # b) cs"
    using Cons.prems by (intro Cons.IH) simp
  with x show ?case by simp
qed

lemma normalize_idem:
  assumes "\<forall>c \<in> set city. stable_char L c"
  shows "normalize_city L (normalize_city L city) = normalize_city L city"
proof -
  let ?u = "str_strip city"
  let ?t = "str_title L ?u"
  have st: "\<forall>c \<in> set ?u. stable_char L c" using assms set_strip by blast
  have sp: "map is_space ?t = map is_space ?u"
    unfolding str_title_def using st by (rule title_from_spaces)
  have "str_strip ?t = ?t"
  proof (cases "?u = []")
    case True
    then have "?t = []" by (simp add: str_title_def)
    then show ?thesis by (intro strip_fixed) simp
  next
    case False
    from sp have len: "length ?t = length ?u" by (metis length_map)
    with False have ne: "?t \<noteq> []" by auto
    have "is_space (hd ?t) = is_space (hd ?u)"
      using sp ne False by (metis hd_map)
    moreover have "is_space (last ?t) = is_space (last ?u)"
      using sp ne False by (metis last_map)
    ultimately show ?thesis using strip_ends [OF False] by (intro strip_fixed) simp
  qed
  moreover have "str_title L ?t = ?t"
    unfolding str_title_def using st by (rule title_from_idem)
  ultimately show ?thesis by (simp add: normalize_city_def)
qed

lemma py311_simps:
  "to_title py311 = unicode_title" "to_lower py311 = unicode_lower"
  "is_cased py311 = unicode_cased" "is_case_ignorable py311 = unicode_case_ignorable"
  by (simp_all add: py311_def)

lemma stable_sao_paulo: "\<forall>c \<in> set sao_paulo_padded. stable_char py311 c"
  by (simp add: sao_paulo_padded_def stable_char_def py311_simps unicode_title_def
        unicode_lower_def unicode_cased_def is_space_def)

lemma normalize_sao_paulo:
  "normalize_city py311 sao_paulo_lower = sao_paulo"
  "normalize_city py311 sao_paulo_padded = sao_paulo"
  "normalize_city py311 sao_paulo_upper = sao_paulo"
  by (simp_all add: normalize_city_def str_title_def str_strip_def is_space_def py311_simps
        lower_ucs4_def unicode_title_def unicode_lower_def unicode_cased_def
        sao_paulo_lower_def sao_paulo_padded_def sao_paulo_upper_def sao_paulo_def)

lemma cache_key_sao_paulo:
  "get_cache_key py311 sao_paulo = ustr ''weather_cache:'' @ sao_paulo_lower"
  by (simp add: get_cache_key_def str_lower_def py311_simps lower_ucs4_def unicode_lower_def
        sao_paulo_lower_def sao_paulo_def)

lemma normalize_j_caron:
  "normalize_city py311 j_caron_x = [74, 780, 120]"
  "normalize_city py311 [74, 780, 120] = [74, 780, 88]"
  by (simp_all add: normalize_city_def str_title_def str_strip_def is_space_def py311_simps
        lower_ucs4_def unicode_title_def unicode_lower_def unicode_cased_def j_caron_x_def)

text \<open>
  C9, as the claim states it, fails in its last part: normalization is not idempotent. The
  name made of U+01F0 (small j with caron) and \<open>x\<close> is title-cased to \<open>J\<close>, the combining caron
  and \<open>x\<close>; the caron is not cased, so a second normalization raises the \<open>x\<close> to \<open>X\<close>. The
  views normalize before they call the use cases, which normalize again.
\<close>

theorem normalize_not_idempotent_counterexample:
  "normalize_city py311 (normalize_city py311 j_caron_x) \<noteq> normalize_city py311 j_caron_x"
  by (simp add: normalize_j_caron)

text \<open>
  C9, amended. The three spellings of the specification normalize to the same form, and so
  to the same cache key \<open>weather_cache:s\~ao paulo\<close> and the same history key: the two use
  cases give the same result on them in every state. White space before and after a name
  never matters. Normalization is idempotent on the names made of characters whose case
  images are single code points fixed by the same mapping, cased and spaced as the
  character itself (all of ASCII and the letters of the examples are such); it is not
  idempotent on every name.
\<close>

theorem normalize_city_canonical:
  "normalize_city py311 sao_paulo_lower = sao_paulo \<and>
   normalize_city py311 sao_paulo_padded = sao_paulo \<and>
   normalize_city py311 sao_paulo_upper = sao_paulo \<and>
   get_cache_key py311 sao_paulo = ustr ''weather_cache:'' @ sao_paulo_lower \<and>
   GetWeatherUseCase_execute py311 ob svc F now sao_paulo_lower ip w
     = GetWeatherUseCase_execute py311 ob svc F now sao_paulo_padded ip w \<and>
   GetWeatherUseCase_execute py311 ob svc F now sao_paulo_upper ip w
     = GetWeatherUseCase_execute py311 ob svc F now sao_paulo_padded ip w \<and>
   GetWeatherHistoryUseCase_execute py311 F ob db sao_paulo_lower ip limit
     = GetWeatherHistoryUseCase_execute py311 F ob db sao_paulo_padded ip limit \<and>
   GetWeatherHistoryUseCase_execute py311 F ob db sao_paulo_upper ip limit
     = GetWeatherHistoryUseCase_execute py311 F ob db sao_paulo_padded ip limit \<and>
   ((\<forall>c \<in> set pre. is_space c) \<and> (\<forall>c \<in> set post. is_space c)
      \<longrightarrow> normalize_city L (pre @ city @ post) = normalize_city L city) \<and>
   ((\<forall>c \<in> set city. stable_char L c)
      \<longrightarrow> normalize_city L (normalize_city L city) = normalize_city L city)"
proof -
  have pad: "normalize_city L (pre @ city @ post) = normalize_city L city"
    if "\<forall>c \<in> set pre. is_space c" and "\<forall>c \<in> set post. is_space c"
    using that by (simp only: normalize_city_def strip_padding)
  have idem: "normalize_city L (normalize_city L city) = normalize_city L city"
    if "\<forall>c \<in> set city. stable_char L c"
    using that by (rule normalize_idem)
  have uc: "GetWeatherUseCase_execute py311 ob svc F now sao_paulo_lower ip w
              = GetWeatherUseCase_execute py311 ob svc F now sao_paulo_padded ip w"
    "GetWeatherUseCase_execute py311 ob svc F now sao_paulo_upper ip w
              = GetWeatherUseCase_execute py311 ob svc F now sao_paulo_padded ip w"
    by (simp_all only: GetWeatherUseCase_execute_def normalize_sao_paulo)
  have hc: "GetWeatherHistoryUseCase_execute py311 F ob db sao_paulo_lower ip limit
              = GetWeatherHistoryUseCase_execute py311 F ob db sao_paulo_padded ip limit"
    "GetWeatherHistoryUseCase_execute py311 F ob db sao_paulo_upper ip limit
              = GetWeatherHistoryUseCase_execute py311 F ob db sao_paulo_padded ip limit"
    by (simp_all only: GetWeatherHistoryUseCase_execute_def normalize_sao_paulo)
  show ?thesis
    using pad idem uc hc normalize_sao_paulo cache_key_sao_paulo by blast
qed

theorem normalize_city_canonical_witness:
  "is_space 32 \<and> is_space 9 \<and>
   normalize_city py311 ([32, 9] @ sao_paulo_upper @ [32]) = sao_paulo \<and>
   list_all (stable_char py311) sao_paulo_padded \<and>
   normalize_city py311 (normalize_city py311 sao_paulo_padded) = sao_paulo"
proof -
  have a: "(\<forall>c \<in> set [32, 9]. is_space c) \<and> (\<forall>c \<in> set [32::nat]. is_space c)"
    by (simp add: is_space_def)
  note b = stable_sao_paulo
  have "normalize_city py311 ([32, 9] @ sao_paulo_upper @ [32])
          = normalize_city py311 sao_paulo_upper"
    using a normalize_city_canonical
      [where pre = "[32, 9]" and post = "[32]" and L = py311 and city = sao_paulo_upper]
    by blast
  moreover have "normalize_city py311 (normalize_city py311 sao_paulo_padded)
          = normalize_city py311 sao_paulo_padded"
    using b normalize_city_canonical [where L = py311 and city = sao_paulo_padded]
    by blast
  ultimately have "normalize_city py311 ([32, 9] @ sao_paulo_upper @ [32])
          = normalize_city py311 sao_paulo_upper \<and>
       normalize_city py311 (normalize_city py311 sao_paulo_padded)
          = normalize_city py311 sao_paulo_padded" by blast
  then have "normalize_city py311 ([32, 9] @ sao_paulo_upper @ [32]) = sao_paulo \<and>
       normalize_city py311 (normalize_city py311 sao_paulo_padded) = sao_paulo"
    by (simp only: normalize_sao_paulo)
  moreover have "is_space 32 \<and> is_space 9" by (simp add: is_space_def)
  moreover have "list_all (stable_char py311) sao_paulo_padded"
    using b by (simp only: list_all_iff)
  ultimately show ?thesis by blast
qed

section \<open>Reading the history\<close>

lemma sorts_table_order_ties: "sorts_by_created_desc table_order_ties"
proof -
  have "sorted (map (\<lambda>q. - q_created_at q) (sort_key (\<lambda>q. - q_created_at q) qs))" for qs
    by (rule sorted_sort_key)
  then have "sorted_wrt (\<lambda>a b. q_created_at a \<ge> q_created_at b) (table_order_ties qs)" for qs
    by (simp add: table_order_ties_def sorted_map)
  then show ?thesis by (simp add: sorts_by_created_desc_def table_order_ties_def)
qed

lemma sorts_higher_id_first_ties: "sorts_by_created_desc higher_id_first_ties"
proof -
  have "sorted (map (\<lambda>q. - q_created_at q)
          (sort_key (\<lambda>q. - q_created_at q) (rev (sort_key q_id qs))))" for qs
    by (rule sorted_sort_key)
  then have "sorted_wrt (\<lambda>a b. q_created_at a \<ge> q_created_at b) (higher_id_first_ties qs)" for qs
    by (simp add: higher_id_first_ties_def sorted_map)
  then show ?thesis by (simp add: sorts_by_created_desc_def higher_id_first_ties_def)
qed

lemma view_limit_cases:
  "view_limit py_int p =
     (case p of
        Missing \<Rightarrow> 10
      | Given text \<Rightarrow>
          (case py_int text of
             None \<Rightarrow> 10
           | Some n \<Rightarrow> if 1 \<le> n \<and> n \<le> 50 then n else 10))"
  by (auto simp: view_limit_def split: query_param.splits option.splits)

lemma view_limit_range: "1 \<le> view_limit py_int p \<and> view_limit py_int p \<le> 50"
  by (auto simp: view_limit_def split: query_param.splits option.splits)

lemma get_history_sorted:
  assumes "sorts_by_created_desc ob"
  shows "sorted_wrt (\<lambda>a b. q_created_at a \<ge> q_created_at b) (get_history F ob db city ip limit)"
proof -
  have "sorted_wrt (\<lambda>a b. q_created_at a \<ge> q_created_at b) (ob (filter_by city ip (rows db)))"
    using assms by (simp add: sorts_by_created_desc_def)
  then show ?thesis by (simp add: get_history_def sorted_wrt_take)
qed

lemma get_history_subset:
  assumes "sorts_by_created_desc ob"
  shows "set (get_history F ob db city ip limit) \<subseteq> set (filter_by city ip (rows db))"
proof -
  have "set (ob (filter_by city ip (rows db))) = set (filter_by city ip (rows db))"
    using assms by (metis sorts_by_created_desc_def set_mset_mset)
  then have "set (take n (ob (filter_by city ip (rows db)))) \<subseteq> set (filter_by city ip (rows db))"
    for n using set_take_subset [of n "ob (filter_by city ip (rows db))"] by simp
  then show ?thesis by (simp add: get_history_def)
qed

lemma view_limit_100: "ascii_int (ustr ''100'') = Some 100"
  "view_limit ascii_int (Given (ustr ''100'')) = 10"
  "ascii_int (ustr ''0'') = Some 0"
  "view_limit ascii_int (Given (ustr ''0'')) = 10"
  by (simp_all add: view_limit_def ascii_int_def ascii_digits_def ustr_def)

text \<open>
  C4, as the claim states it, fails: the limit is not clamped. The text \<open>100\<close> is a valid
  integer above the interval; clamping gives 50, the view gives 10. The text \<open>0\<close> is below
  the interval; clamping gives 1, the view gives 10.
\<close>

theorem history_limit_not_clamped_counterexample:
  "ascii_int (ustr ''100'') = Some 100 \<and>
   view_limit ascii_int (Given (ustr ''100'')) \<noteq> clamp_1_50 100 \<and>
   ascii_int (ustr ''0'') = Some 0 \<and>
   view_limit ascii_int (Given (ustr ''0'')) \<noteq> clamp_1_50 0"
  by (simp add: view_limit_100 clamp_1_50_def)

text \<open>
  C4, amended. For every value of the \<open>limit\<close> parameter the effective limit lies between 1
  and 50: an integer between 1 and 50 is taken as it is, and every other input (a missing
  parameter, a text that is no integer, an integer outside the interval) gives the default
  10, not the nearest bound. The data that the use case returns for a city that is given
  holds the normalized city, this limit, at most that many records of the city and client,
  newest first by creation instant, and as total the number of the records returned.
\<close>

theorem history_limit_effective:
  assumes "city0 \<noteq> []" and "sorts_by_created_desc ob"
  shows "\<exists>h. WeatherHistoryView_get L py_int F ob db (Given city0) p ip = Some h \<and>
           h_limit h = view_limit py_int p \<and>
           1 \<le> h_limit h \<and> h_limit h \<le> 50 \<and>
           h_limit h = (case p of
                          Missing \<Rightarrow> 10
                        | Given text \<Rightarrow>
                            (case py_int text of
                               None \<Rightarrow> 10
                             | Some n \<Rightarrow> if 1 \<le> n \<and> n \<le> 50 then n else 10)) \<and>
           h_city h = normalize_city L (normalize_city L city0) \<and>
           h_queries h = get_history F ob db (h_city h) ip (h_limit h) \<and>
           h_total h = length (h_queries h) \<and>
           int (length (h_queries h)) \<le> h_limit h \<and>
           set (h_queries h) \<subseteq> set (filter_by (h_city h) ip (rows db)) \<and>
           sorted_wrt (\<lambda>a b. q_created_at a \<ge> q_created_at b) (h_queries h)"
proof -
  let ?limit = "view_limit py_int p"
  let ?city = "normalize_city L (normalize_city L city0)"
  let ?h = "GetWeatherHistoryUseCase_execute L F ob db (normalize_city L city0) ip ?limit"
  have view: "WeatherHistoryView_get L py_int F ob db (Given city0) p ip = Some ?h"
    using assms(1) by (simp add: WeatherHistoryView_get_def)
  have fields: "h_limit ?h = ?limit" "h_city ?h = ?city"
    "h_queries ?h = get_history F ob db ?city ip ?limit" "h_total ?h = length (h_queries ?h)"
    by (simp_all add: GetWeatherHistoryUseCase_execute_def Let_def)
  have range: "1 \<le> ?limit" "?limit \<le> 50" using view_limit_range [of py_int p] by simp_all
  have len: "int (length (get_history F ob db ?city ip ?limit)) \<le> ?limit"
    using range by (auto simp: get_history_def min_def)
  show ?thesis
    using view fields range len view_limit_cases [of py_int p]
      get_history_subset [OF assms(2), of F db ?city ip ?limit]
      get_history_sorted [OF assms(2), of F db ?city ip ?limit]
    by (intro exI [of _ ?h]) (simp only: simp_thms)
qed

theorem history_limit_effective_witness:
  "sao_paulo_upper \<noteq> [] \<and> sorts_by_created_desc table_order_ties \<and>
   (\<exists>h. WeatherHistoryView_get py311 ascii_int no_faults table_order_ties empty_db
           (Given sao_paulo_upper) (Given (ustr ''100'')) client0 = Some h \<and>
        h_limit h = 10 \<and> h_city h = sao_paulo \<and> h_total h = length (h_queries h))"
proof -
  have a: "sao_paulo_upper \<noteq> []" by (simp add: sao_paulo_upper_def)
  have n: "normalize_city py311 sao_paulo = sao_paulo"
    using normalize_sao_paulo(2) normalize_idem [OF stable_sao_paulo] by simp
  from history_limit_effective [OF a sorts_table_order_ties,
    of py311 ascii_int no_faults empty_db "Given (ustr ''100'')" client0]
  show ?thesis using a sorts_table_order_ties
    by (auto simp: view_limit_100 normalize_sao_paulo n)
qed

section \<open>GetWeather\<close>

lemma key_names_distinct:
  "ustr ''timestamp'' \<noteq> ustr ''cached''" "ustr ''cached'' \<noteq> ustr ''timestamp''"
  "ustr ''cached_at'' \<noteq> ustr ''cached''" "ustr ''cached_at'' \<noteq> ustr ''timestamp''"
  "ustr ''cached'' \<noteq> ustr ''cached_at''" "ustr ''timestamp'' \<noteq> ustr ''cached_at''"
  by (simp_all add: ustr_def)

lemma map_of_add_metadata:
  "map_of (add_metadata cached now d) k =
     (if k = ustr ''timestamp'' then Some (PDateTime now)
      else if k = ustr ''cached'' then Some (PBool cached)
      else map_of d k)"
  by (simp add: add_metadata_def update_conv' key_names_distinct)

lemma execute_hit:
  assumes "get_cached_weather L F (w_cache w) now (normalize_city L city0) = Some cached_data"
    and "cached_data \<noteq> []"
  shows "GetWeatherUseCase_execute L ob svc F now city0 ip w
           = (Inr (add_metadata True now cached_data), w)"
  using assms by (simp add: GetWeatherUseCase_execute_def)

lemma execute_on_miss:
  assumes "cache_miss L F w now city0"
  shows "GetWeatherUseCase_execute L ob svc F now city0 ip w
           = execute_miss L ob svc F now (normalize_city L city0) ip w"
  using assms by (auto simp: GetWeatherUseCase_execute_def cache_miss_def split: option.splits)

lemma not_miss_hit:
  assumes "\<not> cache_miss L F w now city0"
  obtains cached_data where
    "get_cached_weather L F (w_cache w) now (normalize_city L city0) = Some cached_data"
    "cached_data \<noteq> []"
  using assms by (auto simp: cache_miss_def split: option.splits)

lemma execute_miss_success:
  assumes "svc city = Inr d"
  shows "execute_miss L ob svc F now city ip w =
           (Inr (fresh_data L now d),
            \<lparr>w_cache = fst (cache_weather L F (w_cache w) now city d ONE_MINUTE),
             w_db = save_to_history F ob (w_db w) now city ip
                      (AList.update (ustr ''cached_at'') (PStr (isoformat L now)) d),
             w_provider_calls = w_provider_calls w @ [city]\<rparr>)"
  using assms
  by (simp add: execute_miss_def cache_weather_def fresh_data_def Let_def)

lemma execute_miss_failure:
  assumes "svc city = Inl e"
  shows "execute_miss L ob svc F now city ip w =
           (Inl (case e of
                   WeatherServiceException m \<Rightarrow> e
                 | _ \<Rightarrow> WeatherServiceException
                         (ustr ''Erro interno do servi'' @ [231] @ ustr ''o: '' @ str_exn L e)),
            w\<lparr>w_provider_calls := w_provider_calls w @ [city]\<rparr>)"
  using assms by (cases e) (simp_all add: execute_miss_def Let_def)

lemma execute_miss_calls:
  "w_provider_calls (snd (execute_miss L ob svc F now city ip w)) = w_provider_calls w @ [city]"
proof (cases "svc city")
  case (Inl e)
  then show ?thesis by (simp add: execute_miss_failure)
next
  case (Inr d)
  then show ?thesis by (simp add: execute_miss_success)
qed

lemma execute_miss_not_cached:
  "fst (execute_miss L ob svc F now city ip w) = Inr r
     \<Longrightarrow> map_of r (ustr ''cached'') = Some (PBool False)"
proof (cases "svc city")
  case (Inl e)
  assume "fst (execute_miss L ob svc F now city ip w) = Inr r"
  with Inl show ?thesis by (simp add: execute_miss_failure)
next
  case (Inr d)
  assume "fst (execute_miss L ob svc F now city ip w) = Inr r"
  with Inr have "r = fresh_data L now d" by (simp add: execute_miss_success)
  then show ?thesis by (simp add: fresh_data_def map_of_add_metadata key_names_distinct)
qed


lemma save_to_history_ignores_read:
  "save_to_history (F\<lparr>cache_get_fails := g\<rparr>) ob db now city ip d
     = save_to_history F ob db now city ip d"
  by (simp add: save_to_history_def save_query_def cleanup_old_queries_def Let_def)

lemma execute_miss_ignores_read:
  "fst (execute_miss L ob svc (F\<lparr>cache_get_fails := g\<rparr>) now city ip (w\<lparr>w_cache := c\<rparr>))
     = fst (execute_miss L ob svc F now city ip w) \<and>
   w_db (snd (execute_miss L ob svc (F\<lparr>cache_get_fails := g\<rparr>) now city ip (w\<lparr>w_cache := c\<rparr>)))
     = w_db (snd (execute_miss L ob svc F now city ip w)) \<and>
   w_provider_calls
       (snd (execute_miss L ob svc (F\<lparr>cache_get_fails := g\<rparr>) now city ip (w\<lparr>w_cache := c\<rparr>)))
     = w_provider_calls (snd (execute_miss L ob svc F now city ip w))"
proof (cases "svc city")
  case (Inl e)
  then show ?thesis by (simp add: execute_miss_failure)
next
  case (Inr d)
  then show ?thesis
    by (simp add: execute_miss_success save_to_history_ignores_read)
qed

lemma miss_when_read_fails: "cache_get_fails F \<Longrightarrow> cache_miss L F w now city0"
  by (simp add: cache_miss_def get_cached_weather_def)

lemma miss_after_invalidation:
  "cache_miss L F (w\<lparr>w_cache := invalidate_cache L (w_cache w) (normalize_city L city0)\<rparr>)
     now city0"
  by (simp add: cache_miss_def get_cached_weather_def invalidate_cache_def cache_delete_def
        cache_get_def)

lemma mock_on_sao_paulo: "mock sao_paulo = Inr mock_sao_paulo"
  by (simp add: mock_def MockWeatherService_get_weather_def mock_sao_paulo_def str_lower_def
        str_title_def py311_simps lower_ucs4_def unicode_lower_def unicode_title_def
        unicode_cased_def sao_paulo_def ustr_def)

lemma world_hit_cached:
  "get_cached_weather py311 no_faults (w_cache world_hit) 50 sao_paulo = Some cached_entry"
  "cached_entry \<noteq> []"
  by (simp_all add: get_cached_weather_def no_faults_def world_hit_def cache_get_def
        cached_entry_def)

lemma world0_miss: "cache_miss py311 F world0 now city0"
  by (simp add: cache_miss_def get_cached_weather_def world0_def cache_get_def)

text \<open>
  C7. A call that answers from the cache (its result carries \<open>cached = True\<close>) leaves the
  whole state as it was: the provider's call log and the history table are unchanged, so
  the provider is not called, no record is appended and nothing is trimmed. Whenever the
  history table changes, the call was a cache miss and the provider was called for the
  normalized city.
\<close>

theorem cache_hit_frame:
  "(fst (GetWeatherUseCase_execute L ob svc F now city0 ip w) = Inr r \<and>
      map_of r (ustr ''cached'') = Some (PBool True)
      \<longrightarrow> snd (GetWeatherUseCase_execute L ob svc F now city0 ip w) = w) \<and>
   (\<not> cache_miss L F w now city0
      \<longrightarrow> (\<exists>d. fst (GetWeatherUseCase_execute L ob svc F now city0 ip w)
                   = Inr (add_metadata True now d)) \<and>
          snd (GetWeatherUseCase_execute L ob svc F now city0 ip w) = w) \<and>
   (w_db (snd (GetWeatherUseCase_execute L ob svc F now city0 ip w)) \<noteq> w_db w
      \<longrightarrow> cache_miss L F w now city0 \<and>
          w_provider_calls (snd (GetWeatherUseCase_execute L ob svc F now city0 ip w))
            = w_provider_calls w @ [normalize_city L city0])"
proof (cases "cache_miss L F w now city0")
  case True
  then have eq: "GetWeatherUseCase_execute L ob svc F now city0 ip w
                   = execute_miss L ob svc F now (normalize_city L city0) ip w"
    by (rule execute_on_miss)
  have "map_of r (ustr ''cached'') \<noteq> Some (PBool True)"
    if "fst (GetWeatherUseCase_execute L ob svc F now city0 ip w) = Inr r"
    using that execute_miss_not_cached [of L ob svc F now "normalize_city L city0" ip w r]
    by (simp add: eq)
  then show ?thesis using True by (auto simp: eq execute_miss_calls)
next
  case False
  then obtain cached_data where
    "get_cached_weather L F (w_cache w) now (normalize_city L city0) = Some cached_data"
    "cached_data \<noteq> []" by (rule not_miss_hit)
  then have "GetWeatherUseCase_execute L ob svc F now city0 ip w
               = (Inr (add_metadata True now cached_data), w)"
    by (rule execute_hit)
  then show ?thesis using False by auto
qed

theorem cache_hit_frame_witness:
  "fst (GetWeatherUseCase_execute py311 table_order_ties mock no_faults 50 sao_paulo_upper
          client0 world_hit) = Inr (add_metadata True 50 cached_entry) \<and>
   map_of (add_metadata True 50 cached_entry) (ustr ''cached'') = Some (PBool True) \<and>
   \<not> cache_miss py311 no_faults world_hit 50 sao_paulo_upper \<and>
   snd (GetWeatherUseCase_execute py311 table_order_ties mock no_faults 50 sao_paulo_upper
          client0 world_hit) = world_hit"
proof -
  have hit: "\<not> cache_miss py311 no_faults world_hit 50 sao_paulo_upper"
    by (simp add: cache_miss_def normalize_sao_paulo world_hit_cached)
  have res: "fst (GetWeatherUseCase_execute py311 table_order_ties mock no_faults 50
               sao_paulo_upper client0 world_hit) = Inr (add_metadata True 50 cached_entry)"
    using execute_hit [of py311 no_faults world_hit 50 sao_paulo_upper cached_entry]
    by (simp add: normalize_sao_paulo world_hit_cached)
  have c: "map_of (add_metadata True 50 cached_entry) (ustr ''cached'') = Some (PBool True)"
    by (simp add: map_of_add_metadata key_names_distinct)
  from cache_hit_frame [of py311 table_order_ties mock no_faults 50 sao_paulo_upper client0
      world_hit "add_metadata True 50 cached_entry"] hit res c
  show ?thesis by blast
qed

lemma save_to_history_create_fails:
  "db_create_fails F \<Longrightarrow> save_to_history F ob db now city ip d = db"
  by (simp add: save_to_history_def save_query_def)

lemma save_to_history_cleanup_fails:
  "\<not> db_create_fails F \<Longrightarrow> db_cleanup_fails F \<Longrightarrow>
     save_to_history F ob db now city ip d = objects_create db (new_query db now city ip d)"
  by (simp add: save_to_history_def save_query_def cleanup_old_queries_def Let_def)

lemma cache_weather_set_fails:
  "cache_set_fails F \<Longrightarrow> fst (cache_weather L F c now city d ttl) = c"
  by (simp add: cache_weather_def Let_def)

text \<open>
  C6. When the provider has data for the city, the call returns data whatever the cache
  does. A failing read is a cache miss: the provider is called and the fresh data is
  returned, and the result, the history and the provider's call log are those of the call
  whose read works on a cache without the entry. A failing write after a miss still
  returns the fresh data and leaves the cache as it was.
\<close>

theorem cache_failure_tolerated:
  assumes "svc (normalize_city L city0) = Inr d"
  shows "(\<exists>r. fst (GetWeatherUseCase_execute L ob svc F now city0 ip w) = Inr r) \<and>
         (cache_get_fails F \<longrightarrow>
            fst (GetWeatherUseCase_execute L ob svc F now city0 ip w) = Inr (fresh_data L now d) \<and>
            w_provider_calls (snd (GetWeatherUseCase_execute L ob svc F now city0 ip w))
              = w_provider_calls w @ [normalize_city L city0] \<and>
            fst (GetWeatherUseCase_execute L ob svc F now city0 ip w)
              = fst (GetWeatherUseCase_execute L ob svc (F\<lparr>cache_get_fails := False\<rparr>) now city0 ip
                       (w\<lparr>w_cache := invalidate_cache L (w_cache w) (normalize_city L city0)\<rparr>)) \<and>
            w_db (snd (GetWeatherUseCase_execute L ob svc F now city0 ip w))
              = w_db (snd (GetWeatherUseCase_execute L ob svc (F\<lparr>cache_get_fails := False\<rparr>) now
                       city0 ip
                       (w\<lparr>w_cache := invalidate_cache L (w_cache w) (normalize_city L city0)\<rparr>)))) \<and>
         (cache_miss L F w now city0 \<and> cache_set_fails F \<longrightarrow>
            fst (GetWeatherUseCase_execute L ob svc F now city0 ip w) = Inr (fresh_data L now d) \<and>
            w_cache (snd (GetWeatherUseCase_execute L ob svc F now city0 ip w)) = w_cache w)"
proof -
  let ?city = "normalize_city L city0"
  let ?run = "GetWeatherUseCase_execute L ob svc F now city0 ip w"
  have returns: "\<exists>r. fst ?run = Inr r"
  proof (cases "cache_miss L F w now city0")
    case True
    then show ?thesis using assms by (simp add: execute_on_miss execute_miss_success)
  next
    case False
    then obtain cached_data where
      "get_cached_weather L F (w_cache w) now ?city = Some cached_data" "cached_data \<noteq> []"
      by (rule not_miss_hit)
    then show ?thesis by (simp add: execute_hit)
  qed
  have on_miss: "fst ?run = Inr (fresh_data L now d)"
      "w_provider_calls (snd ?run) = w_provider_calls w @ [?city]"
      "cache_set_fails F \<Longrightarrow> w_cache (snd ?run) = w_cache w"
    if "cache_miss L F w now city0"
    using that assms
    by (simp_all add: execute_on_miss execute_miss_success cache_weather_set_fails)
  have as_miss:
      "fst ?run = fst (GetWeatherUseCase_execute L ob svc (F\<lparr>cache_get_fails := False\<rparr>) now
                         city0 ip (w\<lparr>w_cache := invalidate_cache L (w_cache w) ?city\<rparr>))"
      "w_db (snd ?run)
         = w_db (snd (GetWeatherUseCase_execute L ob svc (F\<lparr>cache_get_fails := False\<rparr>) now
                        city0 ip (w\<lparr>w_cache := invalidate_cache L (w_cache w) ?city\<rparr>)))"
    if "cache_get_fails F"
  proof -
    have m1: "cache_miss L F w now city0" using that by (rule miss_when_read_fails)
    have m2: "cache_miss L (F\<lparr>cache_get_fails := False\<rparr>)
                (w\<lparr>w_cache := invalidate_cache L (w_cache w) ?city\<rparr>) now city0"
      by (rule miss_after_invalidation)
    show "fst ?run = fst (GetWeatherUseCase_execute L ob svc (F\<lparr>cache_get_fails := False\<rparr>) now
                         city0 ip (w\<lparr>w_cache := invalidate_cache L (w_cache w) ?city\<rparr>))"
      and "w_db (snd ?run)
         = w_db (snd (GetWeatherUseCase_execute L ob svc (F\<lparr>cache_get_fails := False\<rparr>) now
                        city0 ip (w\<lparr>w_cache := invalidate_cache L (w_cache w) ?city\<rparr>)))"
      unfolding execute_on_miss [OF m1] execute_on_miss [OF m2]
      using execute_miss_ignores_read
        [where L = L and ob = ob and svc = svc and F = F and g = False and now = now
           and city = ?city and ip = ip and w = w
           and c = "invalidate_cache L (w_cache w) ?city"]
      by simp_all
  qed
  show ?thesis
    using returns on_miss as_miss
      miss_when_read_fails [where F = F and L = L and w = w and now = now and ?city0.0 = city0]
    by blast
qed


lemma normalized_upper: "normalize_city py311 sao_paulo_upper = sao_paulo"
  by (rule normalize_sao_paulo(3))

theorem cache_failure_tolerated_witness:
  "mock (normalize_city py311 sao_paulo_upper) = Inr mock_sao_paulo \<and>
   cache_get_fails cache_down \<and> cache_set_fails cache_down \<and>
   cache_miss py311 cache_down world_hit 50 sao_paulo_upper \<and>
   fst (GetWeatherUseCase_execute py311 table_order_ties mock cache_down 50 sao_paulo_upper
          client0 world_hit) = Inr (fresh_data py311 50 mock_sao_paulo) \<and>
   w_cache (snd (GetWeatherUseCase_execute py311 table_order_ties mock cache_down 50
                   sao_paulo_upper client0 world_hit)) = w_cache world_hit"
proof -
  have a: "mock (normalize_city py311 sao_paulo_upper) = Inr mock_sao_paulo"
    by (simp only: normalized_upper mock_on_sao_paulo)
  have b: "cache_get_fails cache_down" "cache_set_fails cache_down"
    by (simp_all add: cache_down_def no_faults_def)
  have c: "cache_miss py311 cache_down world_hit 50 sao_paulo_upper"
    using b(1) by (rule miss_when_read_fails)
  from cache_failure_tolerated
    [where svc = mock and L = py311 and ?city0.0 = sao_paulo_upper and d = mock_sao_paulo
       and ob = table_order_ties and F = cache_down and now = 50 and ip = client0
       and w = world_hit, OF a] a b c
  show ?thesis by blast
qed

text \<open>
  C8. On a cache miss with data from the provider, the call returns the fresh data whatever
  the history store does. When the append fails, the table stays as it was and the trim is
  skipped; when only the trim fails, the table has the new record and nothing is removed.
\<close>

theorem history_failure_tolerated:
  assumes "svc (normalize_city L city0) = Inr d" and "cache_miss L F w now city0"
  shows "fst (GetWeatherUseCase_execute L ob svc F now city0 ip w) = Inr (fresh_data L now d) \<and>
         (db_create_fails F \<longrightarrow>
            w_db (snd (GetWeatherUseCase_execute L ob svc F now city0 ip w)) = w_db w) \<and>
         (\<not> db_create_fails F \<and> db_cleanup_fails F \<longrightarrow>
            w_db (snd (GetWeatherUseCase_execute L ob svc F now city0 ip w))
              = objects_create (w_db w)
                  (new_query (w_db w) now (normalize_city L city0) ip
                     (AList.update (ustr ''cached_at'') (PStr (isoformat L now)) d)))"
  using assms
  by (simp add: execute_on_miss execute_miss_success save_to_history_create_fails
        save_to_history_cleanup_fails)

theorem history_failure_tolerated_witness:
  "mock (normalize_city py311 sao_paulo_upper) = Inr mock_sao_paulo \<and>
   cache_miss py311 db_down world0 50 sao_paulo_upper \<and>
   db_create_fails db_down \<and>
   fst (GetWeatherUseCase_execute py311 table_order_ties mock db_down 50 sao_paulo_upper
          client0 world0) = Inr (fresh_data py311 50 mock_sao_paulo) \<and>
   w_db (snd (GetWeatherUseCase_execute py311 table_order_ties mock db_down 50 sao_paulo_upper
                client0 world0)) = w_db world0"
proof -
  have a: "mock (normalize_city py311 sao_paulo_upper) = Inr mock_sao_paulo"
    by (simp only: normalized_upper mock_on_sao_paulo)
  have b: "cache_miss py311 db_down world0 50 sao_paulo_upper" by (rule world0_miss)
  have c: "db_create_fails db_down" by (simp add: db_down_def no_faults_def)
  from history_failure_tolerated
    [where svc = mock and L = py311 and ?city0.0 = sao_paulo_upper and d = mock_sao_paulo
       and ob = table_order_ties and F = db_down and now = 50 and ip = client0
       and w = world0, OF a b] a b c
  show ?thesis by blast
qed

lemma dumps_loads_native: "json_native v \<Longrightarrow> dumps_loads L v = v"
  by (induction v) (auto simp: list_all_iff intro!: map_idI)

lemma dumps_loads_dict_native: "json_native (PDict d) \<Longrightarrow> dumps_loads_dict L d = d"
  using dumps_loads_native [of "PDict d" L] by (simp add: dumps_loads_dict_def)

lemma native_cached_at:
  "json_native (PDict d) \<Longrightarrow> json_native (PDict (AList.update k (PStr s) d))"
  by (induction d) (auto simp: list_all_iff)

lemma update_not_empty: "AList.update k v d \<noteq> []"
  by (cases d) auto

lemma cached_after_miss:
  assumes "\<not> cache_set_fails F" and "t1 \<le> t2" and "t2 < t1 + ONE_MINUTE"
  shows "get_cached_weather L F' (fst (cache_weather L F c t1 city d ONE_MINUTE)) t2 city =
           (if cache_get_fails F' then None
            else Some (dumps_loads_dict L
                         (AList.update (ustr ''cached_at'') (PStr (isoformat L t1)) d)))"
  using assms
  by (simp add: get_cached_weather_def cache_weather_def cache_get_def cache_set_def Let_def)

text \<open>
  C1. Take a call that finds nothing in the cache and gets JSON data from the provider,
  with the cache store working, and a second call for the same city less than
  \<open>ONE_MINUTE\<close> (the time to live that the use case passes) later, with nothing done to
  the cache in between. The first call returns \<open>cached = False\<close>, the second returns
  \<open>cached = True\<close> without calling the provider or touching the state, and the two
  results agree on every key other than \<open>cached\<close> and \<open>timestamp\<close>.
\<close>

theorem cache_aside_twice:
  assumes "cache_miss L F1 w t1 city0"
    and "\<not> cache_set_fails F1" and "\<not> cache_get_fails F2"
    and "svc1 (normalize_city L city0) = Inr d" and "json_native (PDict d)"
    and "t1 \<le> t2" and "t2 < t1 + ONE_MINUTE"
  shows "\<exists>r1 r2 w1.
           GetWeatherUseCase_execute L ob svc1 F1 t1 city0 ip w = (Inr r1, w1) \<and>
           GetWeatherUseCase_execute L ob svc2 F2 t2 city0 ip w1 = (Inr r2, w1) \<and>
           map_of r1 (ustr ''cached'') = Some (PBool False) \<and>
           map_of r2 (ustr ''cached'') = Some (PBool True) \<and>
           (\<forall>k. k \<noteq> ustr ''cached'' \<and> k \<noteq> ustr ''timestamp'' \<longrightarrow> map_of r2 k = map_of r1 k) \<and>
           (\<forall>k \<in> set [ustr ''city'', ustr ''country'', ustr ''temperature'',
                       ustr ''description'', ustr ''humidity'', ustr ''pressure'',
                       ustr ''wind_speed'', ustr ''provider'']. map_of r1 k = map_of d k)"
proof -
  let ?city = "normalize_city L city0"
  let ?d = "AList.update (ustr ''cached_at'') (PStr (isoformat L t1)) d"
  let ?w1 = "\<lparr>w_cache = fst (cache_weather L F1 (w_cache w) t1 ?city d ONE_MINUTE),
              w_db = save_to_history F1 ob (w_db w) t1 ?city ip ?d,
              w_provider_calls = w_provider_calls w @ [?city]\<rparr>"
  have first: "GetWeatherUseCase_execute L ob svc1 F1 t1 city0 ip w
                 = (Inr (fresh_data L t1 d), ?w1)"
    using assms(1,4) by (simp add: execute_on_miss execute_miss_success)
  have native: "dumps_loads_dict L ?d = ?d"
    using assms(5) by (intro dumps_loads_dict_native native_cached_at)
  have "get_cached_weather L F2 (w_cache ?w1) t2 ?city = Some ?d"
    using cached_after_miss [OF assms(2,6,7), of L F2 "w_cache w" ?city d] assms(3) native
    by simp
  then have second: "GetWeatherUseCase_execute L ob svc2 F2 t2 city0 ip ?w1
                       = (Inr (add_metadata True t2 ?d), ?w1)"
    using update_not_empty by (rule execute_hit)
  have names: "k \<noteq> ustr ''cached_at'' \<and> k \<noteq> ustr ''cached'' \<and> k \<noteq> ustr ''timestamp''"
    if "k \<in> set [ustr ''city'', ustr ''country'', ustr ''temperature'',
                   ustr ''description'', ustr ''humidity'', ustr ''pressure'',
                   ustr ''wind_speed'', ustr ''provider'']" for k
    using that by (auto simp: ustr_def)
  have fields: "\<forall>k \<in> set [ustr ''city'', ustr ''country'', ustr ''temperature'',
                       ustr ''description'', ustr ''humidity'', ustr ''pressure'',
                       ustr ''wind_speed'', ustr ''provider'']. map_of (fresh_data L t1 d) k = map_of d k"
    using names by (simp add: fresh_data_def map_of_add_metadata update_conv')
  have c1: "map_of (fresh_data L t1 d) (ustr ''cached'') = Some (PBool False)"
    and c2: "map_of (add_metadata True t2 ?d) (ustr ''cached'') = Some (PBool True)"
    by (simp_all add: fresh_data_def map_of_add_metadata key_names_distinct)
  have agree: "\<forall>k. k \<noteq> ustr ''cached'' \<and> k \<noteq> ustr ''timestamp''
                 \<longrightarrow> map_of (add_metadata True t2 ?d) k = map_of (fresh_data L t1 d) k"
    by (simp add: fresh_data_def map_of_add_metadata)
  show ?thesis
    using first second c1 c2 agree fields by blast
qed


theorem cache_aside_twice_witness:
  "cache_miss py311 no_faults world0 0 sao_paulo_upper \<and>
   \<not> cache_set_fails no_faults \<and> \<not> cache_get_fails no_faults \<and>
   mock (normalize_city py311 sao_paulo_upper) = Inr mock_sao_paulo \<and>
   json_native (PDict mock_sao_paulo) \<and> (0::int) \<le> 59 \<and> 59 < 0 + ONE_MINUTE \<and>
   (\<exists>r1 r2 w1.
      GetWeatherUseCase_execute py311 table_order_ties mock no_faults 0 sao_paulo_upper
        client0 world0 = (Inr r1, w1) \<and>
      GetWeatherUseCase_execute py311 table_order_ties mock no_faults 59 sao_paulo_lower
        client0 w1 = (Inr r2, w1) \<and>
      map_of r1 (ustr ''cached'') = Some (PBool False) \<and>
      map_of r2 (ustr ''cached'') = Some (PBool True) \<and>
      map_of r2 (ustr ''temperature'') = Some (PFloat 25) \<and>
      map_of r1 (ustr ''temperature'') = Some (PFloat 25))"
proof -
  have a: "cache_miss py311 no_faults world0 0 sao_paulo_upper" by (rule world0_miss)
  have b: "\<not> cache_set_fails no_faults" "\<not> cache_get_fails no_faults"
    by (simp_all add: no_faults_def)
  have c: "mock (normalize_city py311 sao_paulo_upper) = Inr mock_sao_paulo"
    by (simp only: normalized_upper mock_on_sao_paulo)
  have d: "json_native (PDict mock_sao_paulo)" by (simp add: mock_sao_paulo_def)
  have e: "(0::int) \<le> 59" "59 < 0 + ONE_MINUTE" by (simp_all add: ONE_MINUTE_def)
  have same: "GetWeatherUseCase_execute py311 ob svc F now sao_paulo_lower ip w
                = GetWeatherUseCase_execute py311 ob svc F now sao_paulo_upper ip w"
    for ob svc F now ip w
    by (simp only: GetWeatherUseCase_execute_def normalize_sao_paulo)
  have t: "ustr ''temperature'' \<noteq> ustr ''cached''" "ustr ''temperature'' \<noteq> ustr ''timestamp''"
    "ustr ''temperature'' \<in> set [ustr ''city'', ustr ''country'', ustr ''temperature'',
                       ustr ''description'', ustr ''humidity'', ustr ''pressure'',
                       ustr ''wind_speed'', ustr ''provider'']"
    "map_of mock_sao_paulo (ustr ''temperature'') = Some (PFloat 25)"
    by (simp_all add: ustr_def mock_sao_paulo_def)
  from cache_aside_twice
    [where L = py311 and ?F1.0 = no_faults and ?F2.0 = no_faults and w = world0 and ?t1.0 = 0
       and ?t2.0 = 59 and ?city0.0 = sao_paulo_upper and ?svc1.0 = mock and ?svc2.0 = mock
       and d = mock_sao_paulo and ob = table_order_ties and ip = client0,
     OF a b c d e]
  obtain r1 r2 w1 where r:
    "GetWeatherUseCase_execute py311 table_order_ties mock no_faults 0 sao_paulo_upper
       client0 world0 = (Inr r1, w1)"
    "GetWeatherUseCase_execute py311 table_order_ties mock no_faults 59 sao_paulo_upper
       client0 w1 = (Inr r2, w1)"
    "map_of r1 (ustr ''cached'') = Some (PBool False)"
    "map_of r2 (ustr ''cached'') = Some (PBool True)"
    "\<forall>k. k \<noteq> ustr ''cached'' \<and> k \<noteq> ustr ''timestamp'' \<longrightarrow> map_of r2 k = map_of r1 k"
    "\<forall>k \<in> set [ustr ''city'', ustr ''country'', ustr ''temperature'',
                       ustr ''description'', ustr ''humidity'', ustr ''pressure'',
                       ustr ''wind_speed'', ustr ''provider'']. map_of r1 k = map_of mock_sao_paulo k"
    by blast
  from r(6) t(3,4) have t1: "map_of r1 (ustr ''temperature'') = Some (PFloat 25)" by metis
  from r(5) t(1,2) t1 have t2: "map_of r2 (ustr ''temperature'') = Some (PFloat 25)" by metis
  show ?thesis
    using a b c d e r(1,3,4) r(2) [folded same] t1 t2 by blast
qed

section \<open>Trimming the history\<close>

lemma filter_by_append:
  "filter_by city ip (xs @ ys) = filter_by city ip xs @ filter_by city ip ys"
  by (simp add: filter_by_def)

lemma filter_by_filter:
  "filter_by city ip (filter P xs) = filter P (filter_by city ip xs)"
  by (auto simp: filter_by_def intro: filter_cong)

lemma distinct_ids_filter_by:
  "distinct (map q_id xs) \<Longrightarrow> distinct (map q_id (filter_by city ip xs))"
  by (simp add: filter_by_def distinct_map_filter)

lemma ob_mset: "sorts_by_created_desc ob \<Longrightarrow> mset (ob qs) = mset qs"
  by (simp add: sorts_by_created_desc_def)

lemma ob_set: "sorts_by_created_desc ob \<Longrightarrow> set (ob qs) = set qs"
  by (metis ob_mset set_mset_mset)

lemma ob_length: "sorts_by_created_desc ob \<Longrightarrow> length (ob qs) = length qs"
  by (metis ob_mset size_mset)

lemma ob_sorted:
  "sorts_by_created_desc ob \<Longrightarrow> sorted_wrt (\<lambda>a b. q_created_at a \<ge> q_created_at b) (ob qs)"
  by (simp add: sorts_by_created_desc_def)

text \<open>Deleting the rows whose keys are those of a tail of a list with distinct keys.\<close>

lemma filter_ids_take:
  assumes "distinct (map f xs)"
  shows "filter (\<lambda>x. f x \<notin> set (map f (drop n xs))) (take n xs) = take n xs"
proof -
  have "distinct (map f (take n xs) @ map f (drop n xs))"
    using assms by (metis append_take_drop_id map_append)
  then have "f x \<notin> set (map f (drop n xs))" if "x \<in> set (take n xs)" for x
    using that by auto
  then show ?thesis by (simp add: filter_id_conv)
qed

lemma filter_ids_drop:
  "filter (\<lambda>x. f x \<notin> set (map f (drop n xs))) (drop n xs) = []"
  by (simp add: filter_empty_conv)

lemma kept_mset:
  assumes "mset qs = mset hs" and "distinct (map f hs)"
  shows "mset (filter (\<lambda>x. f x \<notin> set (map f (drop n qs))) hs) = mset (take n qs)"
proof -
  let ?P = "\<lambda>x. f x \<notin> set (map f (drop n qs))"
  have d: "distinct (map f qs)"
    using assms by (metis mset_eq_imp_distinct_iff mset_map)
  have "filter ?P qs = filter ?P (take n qs) @ filter ?P (drop n qs)"
    by (metis append_take_drop_id filter_append)
  then have q: "filter ?P qs = take n qs"
    by (simp only: filter_ids_take [OF d] filter_ids_drop append_Nil2)
  have "mset (filter ?P hs) = filter_mset ?P (mset hs)" by simp
  also have "\<dots> = filter_mset ?P (mset qs)" by (simp only: assms(1))
  also have "\<dots> = mset (filter ?P qs)" by simp
  also have "\<dots> = mset (take n qs)" by (simp only: q)
  finally show ?thesis .
qed

lemma cleanup_result:
  assumes "0 \<le> limit"
  shows "WeatherQuery_cleanup_old_queries ob db city ip limit =
           Inr (db\<lparr>rows := filter (\<lambda>q. q_id q \<notin> set (map q_id
                     (drop (nat limit) (ob (filter_by city ip (rows db)))))) (rows db)\<rparr>)"
proof (cases "int (length (ob (filter_by city ip (rows db)))) > limit")
  case True
  then show ?thesis using assms by (simp add: WeatherQuery_cleanup_old_queries_def Let_def)
next
  case False
  then have "drop (nat limit) (ob (filter_by city ip (rows db))) = []" by simp
  then have "filter (\<lambda>q. q_id q \<notin> set (map q_id
               (drop (nat limit) (ob (filter_by city ip (rows db)))))) (rows db) = rows db"
    by simp
  then show ?thesis using False
    by (simp add: WeatherQuery_cleanup_old_queries_def Let_def)
qed

lemma cleanup_kept:
  assumes "sorts_by_created_desc ob" and "distinct (map q_id (rows db))" and "0 \<le> limit"
    and "WeatherQuery_cleanup_old_queries ob db city ip limit = Inr db'"
  shows "mset (filter_by city ip (rows db'))
           = mset (take (nat limit) (ob (filter_by city ip (rows db))))"
proof -
  let ?H = "filter_by city ip (rows db)"
  have rows': "rows db' = filter (\<lambda>q. q_id q \<notin> set (map q_id (drop (nat limit) (ob ?H)))) (rows db)"
    using assms(4) cleanup_result [OF assms(3), of ob db city ip] by auto
  have "mset (filter (\<lambda>q. q_id q \<notin> set (map q_id (drop (nat limit) (ob ?H)))) ?H)
          = mset (take (nat limit) (ob ?H))"
    using ob_mset [OF assms(1)] distinct_ids_filter_by [OF assms(2)] by (rule kept_mset)
  then show ?thesis by (simp only: rows' filter_by_filter)
qed

lemma cleanup_others:
  assumes "sorts_by_created_desc ob" and "distinct (map q_id (rows db))" and "0 \<le> limit"
    and "WeatherQuery_cleanup_old_queries ob db city ip limit = Inr db'"
  shows "filter (\<lambda>q. \<not> (q_city q = city \<and> q_ip_address q = ip)) (rows db')
           = filter (\<lambda>q. \<not> (q_city q = city \<and> q_ip_address q = ip)) (rows db)"
    and "next_id db' = next_id db"
proof -
  let ?H = "filter_by city ip (rows db)"
  let ?old = "drop (nat limit) (ob ?H)"
  have db': "db' = db\<lparr>rows := filter (\<lambda>q. q_id q \<notin> set (map q_id ?old)) (rows db)\<rparr>"
    using assms(4) cleanup_result [OF assms(3), of ob db city ip] by auto
  then show "next_id db' = next_id db" by simp
  have inj: "inj_on q_id (set (rows db))" using assms(2) by (simp add: distinct_map)
  have "q_id x \<notin> set (map q_id ?old)"
    if x: "x \<in> set (rows db)" and other: "\<not> (q_city x = city \<and> q_ip_address x = ip)" for x
  proof
    assume "q_id x \<in> set (map q_id ?old)"
    then obtain y where y: "y \<in> set ?old" "q_id y = q_id x" by auto
    from y(1) have "y \<in> set (ob ?H)" by (rule in_set_dropD)
    then have yH: "y \<in> set ?H" using ob_set [OF assms(1)] by simp
    then have "y \<in> set (rows db)" by (simp add: filter_by_def)
    with inj x y(2) have "y = x" by (simp add: inj_on_def)
    with yH other show False by (simp add: filter_by_def)
  qed
  then have "filter (\<lambda>q. \<not> (q_city q = city \<and> q_ip_address q = ip))
               (filter (\<lambda>q. q_id q \<notin> set (map q_id ?old)) (rows db))
             = filter (\<lambda>q. \<not> (q_city q = city \<and> q_ip_address q = ip)) (rows db)"
    by (auto simp: filter_filter intro!: filter_cong)
  then show "filter (\<lambda>q. \<not> (q_city q = city \<and> q_ip_address q = ip)) (rows db')
           = filter (\<lambda>q. \<not> (q_city q = city \<and> q_ip_address q = ip)) (rows db)"
    by (simp add: db')
qed

lemma cleanup_recent:
  assumes "sorts_by_created_desc ob" and "distinct (map q_id (rows db))" and "0 \<le> limit"
    and "WeatherQuery_cleanup_old_queries ob db city ip limit = Inr db'"
    and kept: "kept \<in> set (filter_by city ip (rows db'))"
    and gone: "gone \<in> set (filter_by city ip (rows db))" "gone \<notin> set (rows db')"
  shows "q_created_at gone \<le> q_created_at kept"
proof -
  let ?H = "filter_by city ip (rows db)"
  let ?Q = "ob ?H"
  let ?old = "drop (nat limit) ?Q"
  have rows': "rows db' = filter (\<lambda>q. q_id q \<notin> set (map q_id ?old)) (rows db)"
    using assms(4) cleanup_result [OF assms(3), of ob db city ip] by auto
  have "set (filter_by city ip (rows db')) = set (take (nat limit) ?Q)"
    using cleanup_kept [OF assms(1-4)] by (metis set_mset_mset)
  with kept have k: "kept \<in> set (take (nat limit) ?Q)" by simp
  have inj: "inj_on q_id (set (rows db))" using assms(2) by (simp add: distinct_map)
  from gone have g_rows: "gone \<in> set (rows db)" by (simp add: filter_by_def)
  with gone(2) have "q_id gone \<in> set (map q_id ?old)" by (simp add: rows')
  then obtain y where y: "y \<in> set ?old" "q_id y = q_id gone" by auto
  from y(1) have "y \<in> set ?Q" by (rule in_set_dropD)
  then have "y \<in> set (rows db)" using ob_set [OF assms(1)] by (simp add: filter_by_def)
  with inj g_rows y(2) have "y = gone" by (simp add: inj_on_def)
  with y(1) have g: "gone \<in> set ?old" by simp
  have "sorted_wrt (\<lambda>a b. q_created_at a \<ge> q_created_at b) (take (nat limit) ?Q @ ?old)"
    using ob_sorted [OF assms(1), of ?H] by (simp only: append_take_drop_id)
  then have "\<forall>a \<in> set (take (nat limit) ?Q). \<forall>b \<in> set ?old. q_created_at a \<ge> q_created_at b"
    unfolding sorted_wrt_append by blast
  then show ?thesis using k g by blast
qed

lemma cleanup_count:
  assumes "sorts_by_created_desc ob" and "distinct (map q_id (rows db))" and "0 \<le> limit"
    and "WeatherQuery_cleanup_old_queries ob db city ip limit = Inr db'"
  shows "length (filter_by city ip (rows db'))
           = min (nat limit) (length (filter_by city ip (rows db)))"
proof -
  have "length (filter_by city ip (rows db'))
          = length (take (nat limit) (ob (filter_by city ip (rows db))))"
    using cleanup_kept [OF assms] by (metis size_mset)
  then show ?thesis using ob_length [OF assms(1)] by simp
qed

lemma filter_ids_take_away:
  assumes "distinct (map f xs)"
  shows "filter (\<lambda>x. f x \<notin> set (map f (take k xs))) xs = drop k xs"
proof -
  let ?P = "\<lambda>x. f x \<notin> set (map f (take k xs))"
  have d: "distinct (map f (take k xs) @ map f (drop k xs))"
    using assms by (metis append_take_drop_id map_append)
  then have "?P x" if "x \<in> set (drop k xs)" for x using that by auto
  then have a: "filter ?P (drop k xs) = drop k xs" by (simp add: filter_id_conv)
  have b: "filter ?P (take k xs) = []" by (simp add: filter_empty_conv)
  have "filter ?P xs = filter ?P (take k xs) @ filter ?P (drop k xs)"
    by (metis append_take_drop_id filter_append)
  then show ?thesis by (simp only: a b append_Nil)
qed

lemma ob_strict_rev:
  assumes "sorts_by_created_desc ob" and "sorted_wrt (<) (map q_created_at xs)"
  shows "ob xs = rev xs"
proof -
  let ?ts = "map q_created_at"
  have d: "distinct (?ts xs)" and s: "sorted (?ts xs)"
    using assms(2) by (simp_all add: strict_sorted_iff)
  have m: "mset (?ts (ob xs)) = mset (?ts xs)"
    using ob_mset [OF assms(1), of xs] by (metis mset_map)
  have "sorted_wrt (\<lambda>a b. a \<ge> b) (?ts (ob xs))"
    using ob_sorted [OF assms(1), of xs] by (simp add: sorted_wrt_map)
  then have "sorted (rev (?ts (ob xs)))" by (simp add: sorted_wrt_rev)
  moreover have "distinct (rev (?ts (ob xs)))"
    using d m by (metis distinct_rev mset_eq_imp_distinct_iff)
  moreover have "set (rev (?ts (ob xs))) = set (?ts xs)"
    using m by (metis set_rev set_mset_mset)
  ultimately have "rev (?ts (ob xs)) = ?ts xs"
    using s d by (intro sorted_distinct_set_unique)
  then have eq: "?ts (ob xs) = ?ts (rev xs)" by (metis rev_map rev_rev_ident)
  have "inj_on q_created_at (set xs)" using d by (simp add: distinct_map)
  then have "inj_on q_created_at (set (ob xs) \<union> set (rev xs))"
    using ob_set [OF assms(1), of xs] by simp
  then show ?thesis using eq by (simp only: inj_on_map_eq_map)
qed

lemma created_rows_next_id:
  "next_id db = next_id db' \<Longrightarrow> created_rows db city ip fs = created_rows db' city ip fs"
proof (induction fs arbitrary: db db')
  case Nil
  then show ?case by simp
next
  case (Cons f fs)
  obtain now d where f: "f = (now, d)" by (cases f)
  have "created_rows (db\<lparr>next_id := Suc (next_id db)\<rparr>) city ip fs
          = created_rows (db'\<lparr>next_id := Suc (next_id db')\<rparr>) city ip fs"
    using Cons.prems by (intro Cons.IH) simp
  then show ?case using Cons.prems by (simp add: f new_query_def)
qed

lemma created_rows_instants:
  "map q_created_at (created_rows db city ip fs) = map fst fs"
  by (induction fs arbitrary: db) (auto simp: new_query_def)

lemma created_rows_ids:
  "map q_id (created_rows db city ip fs) = [next_id db ..< next_id db + length fs]"
proof (induction fs arbitrary: db)
  case Nil
  then show ?case by simp
next
  case (Cons f fs)
  obtain now d where f: "f = (now, d)" by (cases f)
  show ?case using Cons.IH [of "db\<lparr>next_id := Suc (next_id db)\<rparr>"]
    by (simp add: f new_query_def upt_rec)
qed

lemma created_rows_length: "length (created_rows db city ip fs) = length fs"
  by (metis created_rows_instants length_map)

text \<open>Keeping the last ten of a list, twice.\<close>

lemma last_ten_twice:
  "drop (length (drop (length xs - 10) xs @ ys) - 10) (drop (length xs - 10) xs @ ys)
     = drop (length (xs @ ys) - 10) (xs @ ys)"
  by (cases "length xs \<le> 10") (auto simp: add.commute)

lemma save_step:
  assumes ob: "sorts_by_created_desc ob" and wf: "well_formed db"
    and ok: "\<not> db_create_fails F" "\<not> db_cleanup_fails F"
    and asc: "sorted_wrt (<) (map q_created_at (filter_by city ip (rows db)) @ [now])"
  shows "filter_by city ip (rows (save_to_history F ob db now city ip d))
           = drop (length (filter_by city ip (rows db) @ [new_query db now city ip d]) - 10)
               (filter_by city ip (rows db) @ [new_query db now city ip d])"
    and "well_formed (save_to_history F ob db now city ip d)"
    and "next_id (save_to_history F ob db now city ip d) = Suc (next_id db)"
proof -
  let ?q = "new_query db now city ip d"
  let ?H = "filter_by city ip (rows db)"
  let ?X = "?H @ [?q]"
  let ?k = "length ?X - 10"
  let ?db1 = "objects_create db ?q"
  let ?P = "\<lambda>x. q_id x \<notin> set (map q_id (take ?k ?X))"
  have q: "q_id ?q = next_id db" "q_city ?q = city" "q_ip_address ?q = ip"
    "q_created_at ?q = now" by (simp_all add: new_query_def)
  have K1: "filter_by city ip (rows ?db1) = ?X"
    using q by (simp add: objects_create_def filter_by_append) (simp add: filter_by_def)
  have "sorted_wrt (<) (map q_created_at ?X)" using asc q(4) by simp
  then have "ob ?X = rev ?X" using ob by (intro ob_strict_rev)
  then have old: "set (map q_id (drop 10 (ob ?X))) = set (map q_id (take ?k ?X))"
    by (simp add: drop_rev)
  have "save_to_history F ob db now city ip d = cleanup_old_queries F ob ?db1 city ip 10"
    using ok(1) by (simp add: save_to_history_def save_query_def Let_def)
  also have "\<dots> = ?db1\<lparr>rows := filter (\<lambda>x. q_id x \<notin> set (map q_id
                        (drop (nat 10) (ob (filter_by city ip (rows ?db1)))))) (rows ?db1)\<rparr>"
    using ok(2) cleanup_result [of 10 ob ?db1 city ip] by (simp add: cleanup_old_queries_def)
  also have "\<dots> = ?db1\<lparr>rows := filter ?P (rows ?db1)\<rparr>"
    using old by (simp add: K1)
  finally have db': "save_to_history F ob db now city ip d = ?db1\<lparr>rows := filter ?P (rows ?db1)\<rparr>" .
  have ids: "distinct (map q_id (rows ?db1))"
    using wf q(1) by (auto simp: well_formed_def objects_create_def)
  then have "distinct (map q_id ?X)"
    using distinct_ids_filter_by [of "rows ?db1" city ip] by (simp add: K1)
  then have "filter ?P ?X = drop ?k ?X" by (rule filter_ids_take_away)
  then show "filter_by city ip (rows (save_to_history F ob db now city ip d)) = drop ?k ?X"
    by (simp add: db' filter_by_filter K1)
  show "next_id (save_to_history F ob db now city ip d) = Suc (next_id db)"
    by (simp add: db' objects_create_def)
  have "\<forall>x \<in> set (rows ?db1). q_id x < Suc (next_id db)"
    using wf q(1) by (auto simp: well_formed_def objects_create_def less_Suc_eq)
  then have b': "\<forall>x \<in> set (filter ?P (rows ?db1)). q_id x < Suc (next_id db)" by simp
  have d': "distinct (map q_id (filter ?P (rows ?db1)))" using ids by (rule distinct_map_filter)
  have r: "rows (?db1\<lparr>rows := filter ?P (rows ?db1)\<rparr>) = filter ?P (rows ?db1)"
    and n: "next_id (?db1\<lparr>rows := filter ?P (rows ?db1)\<rparr>) = Suc (next_id db)"
    by (simp_all add: objects_create_def)
  show "well_formed (save_to_history F ob db now city ip d)"
    unfolding db' well_formed_def r n using d' b' by blast
qed

lemma run_history:
  assumes ob: "sorts_by_created_desc ob"
    and ok: "\<not> db_create_fails F" "\<not> db_cleanup_fails F"
  shows "well_formed db \<Longrightarrow>
         sorted_wrt (<) (map q_created_at (filter_by city ip (rows db)) @ map fst (f # rest)) \<Longrightarrow>
         filter_by city ip (rows (record_fetches F ob db city ip (f # rest)))
           = drop (length (filter_by city ip (rows db) @ created_rows db city ip (f # rest)) - 10)
               (filter_by city ip (rows db) @ created_rows db city ip (f # rest))"
proof (induction rest arbitrary: db f)
  case Nil
  obtain now d where f: "f = (now, d)" by (cases f)
  from Nil.prems(2) have "sorted_wrt (<) (map q_created_at (filter_by city ip (rows db)) @ [now])"
    by (simp add: f)
  from save_step(1) [OF ob Nil.prems(1) ok this, of d] show ?case by (simp add: f)
next
  case (Cons g rest)
  obtain now d where f: "f = (now, d)" by (cases f)
  let ?q = "new_query db now city ip d"
  let ?H = "filter_by city ip (rows db)"
  let ?db1 = "save_to_history F ob db now city ip d"
  let ?k = "length (?H @ [?q]) - 10"
  let ?R = "map fst (g # rest)"
  have all: "sorted_wrt (<) (map q_created_at (?H @ [?q]) @ ?R)"
    using Cons.prems(2) by (simp add: f new_query_def)
  then have "sorted_wrt (<) (map q_created_at ?H @ [now])"
    by (simp add: sorted_wrt_append new_query_def)
  note step = save_step [OF ob Cons.prems(1) ok this, of d]
  have "map q_created_at (filter_by city ip (rows ?db1)) @ ?R
          = drop ?k (map q_created_at (?H @ [?q]) @ ?R)"
    by (simp only: step(1) drop_map drop_append) simp
  then have asc1: "sorted_wrt (<) (map q_created_at (filter_by city ip (rows ?db1)) @ ?R)"
    using all by (simp only: sorted_wrt_drop)
  have C: "created_rows ?db1 city ip (g # rest)
             = created_rows (db\<lparr>next_id := Suc (next_id db)\<rparr>) city ip (g # rest)"
    using step(3) by (intro created_rows_next_id) simp
  have "filter_by city ip (rows (record_fetches F ob ?db1 city ip (g # rest)))
          = drop (length (filter_by city ip (rows ?db1) @ created_rows ?db1 city ip (g # rest)) - 10)
              (filter_by city ip (rows ?db1) @ created_rows ?db1 city ip (g # rest))"
    using step(2) asc1 by (rule Cons.IH)
  also have "\<dots> = drop (length ((?H @ [?q]) @ created_rows ?db1 city ip (g # rest)) - 10)
                     ((?H @ [?q]) @ created_rows ?db1 city ip (g # rest))"
    by (simp only: step(1) last_ten_twice)
  finally show ?case by (simp add: f C)
qed

lemma execute_miss_history:
  assumes "cache_miss L F w now city0" and "svc (normalize_city L city0) = Inr d"
  shows "w_db (snd (GetWeatherUseCase_execute L ob svc F now city0 ip w))
           = record_fetches F ob (w_db w) (normalize_city L city0) ip
               [(now, AList.update (ustr ''cached_at'') (PStr (isoformat L now)) d)]"
  using assms by (simp add: execute_on_miss execute_miss_success)

lemma tied_cleanup:
  "WeatherQuery_cleanup_old_queries table_order_ties tied_db sao_paulo client0 1
     = Inr (tied_db\<lparr>rows := [tied_row 1]\<rparr>)"
  "WeatherQuery_cleanup_old_queries higher_id_first_ties tied_db sao_paulo client0 1
     = Inr (tied_db\<lparr>rows := [tied_row 2]\<rparr>)"
  by (simp_all add: WeatherQuery_cleanup_old_queries_def table_order_ties_def
        higher_id_first_ties_def tied_db_def tied_row_def filter_by_def Let_def)

lemma at_once_ids:
  "map q_id (get_history no_faults table_order_ties
     (record_fetches no_faults table_order_ties empty_db sao_paulo client0 eleven_at_once)
     sao_paulo client0 50) = [1, 2, 3, 4, 5, 6, 7, 8, 9, 10]"
  by (simp add: eleven_at_once_def numeral_eq_Suc save_to_history_def save_query_def
        cleanup_old_queries_def WeatherQuery_cleanup_old_queries_def table_order_ties_def
        new_query_def objects_create_def filter_by_def get_history_def no_faults_def
        empty_db_def Let_def)


lemma run_history_read:
  assumes ob: "sorts_by_created_desc ob"
    and ok: "\<not> db_create_fails F" "\<not> db_cleanup_fails F" "\<not> db_read_fails F"
    and wf: "well_formed db"
    and asc: "sorted_wrt (<) (map q_created_at (filter_by city ip (rows db)) @ map fst fetches)"
    and n: "10 \<le> length fetches"
  shows "get_history F ob (record_fetches F ob db city ip fetches) city ip 50
           = rev (drop (length fetches - 10) (created_rows db city ip fetches))"
proof -
  let ?H = "filter_by city ip (rows db)"
  let ?C = "created_rows db city ip fetches"
  let ?n = "length fetches"
  from n obtain f rest where fs: "fetches = f # rest" by (cases fetches) auto
  have len: "length ?C = ?n" by (rule created_rows_length)
  have "filter_by city ip (rows (record_fetches F ob db city ip fetches))
          = drop (length (?H @ ?C) - 10) (?H @ ?C)"
    using run_history [OF ob ok(1,2) wf, of city ip f rest] asc by (simp only: fs)
  also have "\<dots> = drop (?n - 10) ?C" using n len by simp
  finally have K: "filter_by city ip (rows (record_fetches F ob db city ip fetches))
                     = drop (?n - 10) ?C" .
  have "sorted_wrt (<) (map fst fetches)" using asc by (simp add: sorted_wrt_append)
  then have "sorted_wrt (<) (drop (?n - 10) (map fst fetches))" by (rule sorted_wrt_drop)
  moreover have "map q_created_at (drop (?n - 10) ?C) = drop (?n - 10) (map fst fetches)"
    by (metis drop_map created_rows_instants)
  ultimately have "sorted_wrt (<) (map q_created_at (drop (?n - 10) ?C))" by simp
  then have "ob (drop (?n - 10) ?C) = rev (drop (?n - 10) ?C)"
    using ob by (intro ob_strict_rev)
  then show ?thesis using ok(3) len n by (simp add: get_history_def K)
qed

text \<open>
  C3, as the claim states it, fails: ties are not broken by the higher primary key. The
  query orders by \<open>created_at\<close> alone and leaves rows of the same instant to the database.
  With two rows of one city and client created at the same instant and a limit of one,
  a database that returns such rows in table order keeps the row with the lower key, and
  one that returns the higher key first keeps the other row; both orderings answer the
  query. In the same way, of eleven fetches within one tick of the clock the row created
  last is the one that the trim after the eleventh fetch deletes.
\<close>

theorem history_ties_counterexample:
  "sorts_by_created_desc table_order_ties \<and> sorts_by_created_desc higher_id_first_ties \<and>
   q_created_at (tied_row 1) = q_created_at (tied_row 2) \<and>
   WeatherQuery_cleanup_old_queries table_order_ties tied_db sao_paulo client0 1
     = Inr (tied_db\<lparr>rows := [tied_row 1]\<rparr>) \<and>
   WeatherQuery_cleanup_old_queries higher_id_first_ties tied_db sao_paulo client0 1
     = Inr (tied_db\<lparr>rows := [tied_row 2]\<rparr>) \<and>
   map q_id (get_history no_faults table_order_ties
     (record_fetches no_faults table_order_ties empty_db sao_paulo client0 eleven_at_once)
     sao_paulo client0 50) = [1, 2, 3, 4, 5, 6, 7, 8, 9, 10]"
  using sorts_table_order_ties sorts_higher_id_first_ties tied_cleanup at_once_ids
  by (simp add: tied_row_def)

text \<open>
  C3, amended. Let the ordering of the database sort by descending creation instant. On a
  table with distinct primary keys, a cleanup for a city and client with a limit \<open>N\<close> that
  is not negative leaves the rows of every other city or client as they are and keeps, of
  the rows of this city and client, the first \<open>N\<close> in the database's ordering: at most \<open>N\<close>
  rows remain and no row that remains is older than a row that was removed; which rows of
  one and the same instant remain is not determined by their keys. Consequently, when the
  creation instants of the rows of a city and client and of the following cache-miss
  fetches strictly increase and no history operation fails, after ten or more such
  fetches GetHistory with limit 50 returns exactly ten records: the ten created last
  (the last ten instants and the last ten primary keys handed out), newest first.
\<close>

theorem history_retention:
  assumes "sorts_by_created_desc ob"
  shows "(distinct (map q_id (rows db)) \<and> 0 \<le> limit \<longrightarrow>
           (\<exists>db'. WeatherQuery_cleanup_old_queries ob db city ip limit = Inr db' \<and>
              int (length (filter_by city ip (rows db'))) \<le> limit \<and>
              mset (filter_by city ip (rows db'))
                = mset (take (nat limit) (ob (filter_by city ip (rows db)))) \<and>
              (\<forall>kept \<in> set (filter_by city ip (rows db')).
                 \<forall>gone \<in> set (filter_by city ip (rows db)).
                   gone \<notin> set (rows db') \<longrightarrow> q_created_at gone \<le> q_created_at kept) \<and>
              filter (\<lambda>q. \<not> (q_city q = city \<and> q_ip_address q = ip)) (rows db')
                = filter (\<lambda>q. \<not> (q_city q = city \<and> q_ip_address q = ip)) (rows db))) \<and>
         (well_formed db \<and> \<not> db_create_fails F \<and> \<not> db_cleanup_fails F \<and> \<not> db_read_fails F \<and>
          sorted_wrt (<) (map q_created_at (filter_by (normalize_city L city0) ip (rows db))
                            @ map fst fetches) \<and>
          10 \<le> length fetches \<longrightarrow>
            h_queries (GetWeatherHistoryUseCase_execute L F ob
                         (record_fetches F ob db (normalize_city L city0) ip fetches) city0 ip 50)
              = rev (drop (length fetches - 10)
                       (created_rows db (normalize_city L city0) ip fetches)) \<and>
            h_total (GetWeatherHistoryUseCase_execute L F ob
                       (record_fetches F ob db (normalize_city L city0) ip fetches) city0 ip 50)
              = 10 \<and>
            map q_created_at
               (h_queries (GetWeatherHistoryUseCase_execute L F ob
                  (record_fetches F ob db (normalize_city L city0) ip fetches) city0 ip 50))
              = rev (drop (length fetches - 10) (map fst fetches)) \<and>
            map q_id
               (h_queries (GetWeatherHistoryUseCase_execute L F ob
                  (record_fetches F ob db (normalize_city L city0) ip fetches) city0 ip 50))
              = rev (drop (length fetches - 10)
                       [next_id db ..< next_id db + length fetches]))"
proof (intro conjI impI)
  assume a: "distinct (map q_id (rows db)) \<and> 0 \<le> limit"
  then obtain db' where db': "WeatherQuery_cleanup_old_queries ob db city ip limit = Inr db'"
    using cleanup_result [of limit ob db city ip] by blast
  from a have d: "distinct (map q_id (rows db))" and l: "0 \<le> limit" by simp_all
  have "int (length (filter_by city ip (rows db'))) \<le> limit"
    using cleanup_count [OF assms d l db'] l by simp
  moreover note cleanup_kept [OF assms d l db'] cleanup_others(1) [OF assms d l db']
  moreover have "\<forall>kept \<in> set (filter_by city ip (rows db')).
                 \<forall>gone \<in> set (filter_by city ip (rows db)).
                   gone \<notin> set (rows db') \<longrightarrow> q_created_at gone \<le> q_created_at kept"
    using cleanup_recent [OF assms d l db'] by blast
  ultimately show "\<exists>db'. WeatherQuery_cleanup_old_queries ob db city ip limit = Inr db' \<and>
              int (length (filter_by city ip (rows db'))) \<le> limit \<and>
              mset (filter_by city ip (rows db'))
                = mset (take (nat limit) (ob (filter_by city ip (rows db)))) \<and>
              (\<forall>kept \<in> set (filter_by city ip (rows db')).
                 \<forall>gone \<in> set (filter_by city ip (rows db)).
                   gone \<notin> set (rows db') \<longrightarrow> q_created_at gone \<le> q_created_at kept) \<and>
              filter (\<lambda>q. \<not> (q_city q = city \<and> q_ip_address q = ip)) (rows db')
                = filter (\<lambda>q. \<not> (q_city q = city \<and> q_ip_address q = ip)) (rows db)"
    using db' by blast
next
  let ?city = "normalize_city L city0"
  let ?run = "GetWeatherHistoryUseCase_execute L F ob
                (record_fetches F ob db ?city ip fetches) city0 ip 50"
  assume b: "well_formed db \<and> \<not> db_create_fails F \<and> \<not> db_cleanup_fails F \<and> \<not> db_read_fails F \<and>
          sorted_wrt (<) (map q_created_at (filter_by ?city ip (rows db)) @ map fst fetches) \<and>
          10 \<le> length fetches"
  then have read: "get_history F ob (record_fetches F ob db ?city ip fetches) ?city ip 50
                     = rev (drop (length fetches - 10) (created_rows db ?city ip fetches))"
    using run_history_read [OF assms, of F db ?city ip fetches] by blast
  then show q: "h_queries ?run
                  = rev (drop (length fetches - 10) (created_rows db ?city ip fetches))"
    by (simp add: GetWeatherHistoryUseCase_execute_def Let_def)
  have "h_total ?run = length (h_queries ?run)"
    by (simp add: GetWeatherHistoryUseCase_execute_def Let_def)
  then show "h_total ?run = 10" using b by (simp add: q created_rows_length)
  show "map q_created_at (h_queries ?run) = rev (drop (length fetches - 10) (map fst fetches))"
    unfolding q by (metis rev_map drop_map created_rows_instants)
  show "map q_id (h_queries ?run)
          = rev (drop (length fetches - 10) [next_id db ..< next_id db + length fetches])"
    unfolding q by (metis rev_map drop_map created_rows_ids)
qed


theorem history_retention_witness:
  "sorts_by_created_desc table_order_ties \<and>
   distinct (map q_id (rows tied_db)) \<and> (0::int) \<le> 1 \<and>
   (\<exists>db'. WeatherQuery_cleanup_old_queries table_order_ties tied_db sao_paulo client0 1 = Inr db' \<and>
          int (length (filter_by sao_paulo client0 (rows db'))) \<le> 1) \<and>
   well_formed empty_db \<and> \<not> db_create_fails no_faults \<and> \<not> db_cleanup_fails no_faults \<and>
   \<not> db_read_fails no_faults \<and>
   sorted_wrt (<) (map q_created_at
                     (filter_by (normalize_city py311 sao_paulo_upper) client0 (rows empty_db))
                   @ map fst eleven_fetches) \<and>
   10 \<le> length eleven_fetches \<and>
   h_total (GetWeatherHistoryUseCase_execute py311 no_faults table_order_ties
              (record_fetches no_faults table_order_ties empty_db
                 (normalize_city py311 sao_paulo_upper) client0 eleven_fetches)
              sao_paulo_upper client0 50) = 10 \<and>
   map q_created_at
     (h_queries (GetWeatherHistoryUseCase_execute py311 no_faults table_order_ties
                   (record_fetches no_faults table_order_ties empty_db
                      (normalize_city py311 sao_paulo_upper) client0 eleven_fetches)
                   sao_paulo_upper client0 50))
     = [11, 10, 9, 8, 7, 6, 5, 4, 3, 2]"
proof -
  note ob = sorts_table_order_ties
  have a: "distinct (map q_id (rows tied_db)) \<and> (0::int) \<le> 1"
    by (simp add: tied_db_def tied_row_def)
  have f: "\<not> db_create_fails no_faults \<and> \<not> db_cleanup_fails no_faults \<and>
           \<not> db_read_fails no_faults" by (simp add: no_faults_def)
  have b: "well_formed empty_db \<and> \<not> db_create_fails no_faults \<and> \<not> db_cleanup_fails no_faults \<and>
           \<not> db_read_fails no_faults \<and>
           sorted_wrt (<) (map q_created_at
                     (filter_by (normalize_city py311 sao_paulo_upper) client0 (rows empty_db))
                   @ map fst eleven_fetches) \<and>
           10 \<le> length eleven_fetches"
    using f by (simp add: well_formed_def empty_db_def filter_by_def eleven_fetches_def)
  have t: "rev (drop (length eleven_fetches - 10) (map fst eleven_fetches))
             = [11, 10, 9, 8, 7, 6, 5, 4, 3, 2]"
    by (simp add: eleven_fetches_def)
  from history_retention [OF ob, where db = tied_db and limit = 1 and city = sao_paulo
      and ip = client0] a
  have A: "\<exists>db'. WeatherQuery_cleanup_old_queries table_order_ties tied_db sao_paulo client0 1
                   = Inr db' \<and>
                 int (length (filter_by sao_paulo client0 (rows db'))) \<le> 1"
    by blast
  from history_retention [OF ob, where db = empty_db and F = no_faults and L = py311
      and ?city0.0 = sao_paulo_upper and ip = client0 and fetches = eleven_fetches] b
  have B: "h_total (GetWeatherHistoryUseCase_execute py311 no_faults table_order_ties
              (record_fetches no_faults table_order_ties empty_db
                 (normalize_city py311 sao_paulo_upper) client0 eleven_fetches)
              sao_paulo_upper client0 50) = 10 \<and>
       map q_created_at
         (h_queries (GetWeatherHistoryUseCase_execute py311 no_faults table_order_ties
                   (record_fetches no_faults table_order_ties empty_db
                      (normalize_city py311 sao_paulo_upper) client0 eleven_fetches)
                   sao_paulo_upper client0 50))
         = rev (drop (length eleven_fetches - 10) (map fst eleven_fetches))"
    by blast
  show ?thesis using ob a b A B unfolding t by blast
qed

section \<open>The provider\<close>

lemma str_nat_not_empty: "str_nat n \<noteq> []"
  by (subst str_nat.simps) simp

lemma str_nat_inj: "str_nat m = str_nat n \<Longrightarrow> m = n"
proof (induction m arbitrary: n rule: str_nat.induct)
  case (1 m)
  show ?case
  proof (cases "m < 10")
    case True
    then have m: "str_nat m = [48 + m]" by (subst str_nat.simps) simp
    show ?thesis
    proof (cases "n < 10")
      case True
      then have "str_nat n = [48 + n]" by (subst str_nat.simps) simp
      with m "1.prems" show ?thesis by simp
    next
      case False
      then have "str_nat n = str_nat (n div 10) @ [48 + n mod 10]"
        by (subst str_nat.simps) simp
      with m "1.prems" str_nat_not_empty [of "n div 10"] show ?thesis
        by (cases "str_nat (n div 10)") auto
    qed
  next
    case False
    then have m: "str_nat m = str_nat (m div 10) @ [48 + m mod 10]"
      by (subst str_nat.simps) simp
    show ?thesis
    proof (cases "n < 10")
      case True
      then have "str_nat n = [48 + n]" by (subst str_nat.simps) simp
      with m "1.prems" str_nat_not_empty [of "m div 10"] show ?thesis
        by (cases "str_nat (m div 10)") auto
    next
      case n: False
      then have "str_nat n = str_nat (n div 10) @ [48 + n mod 10]"
        by (subst str_nat.simps) simp
      with m "1.prems" have "str_nat (m div 10) = str_nat (n div 10)" "m mod 10 = n mod 10"
        by simp_all
      with "1.IH" [OF False] have "m div 10 = n div 10" "m mod 10 = n mod 10" by simp_all
      then show ?thesis by (metis div_mult_mod_eq)
    qed
  qed
qed

lemma has_kind_domain: "has_kind city e k \<Longrightarrow> \<exists>m. e = WeatherServiceException m"
  by (cases e; cases k) simp_all

lemma has_kind_unique:
  assumes "has_kind city e k" and "has_kind city e k'"
  shows "k = k'"
proof -
  from assms(1) obtain m where e: "e = WeatherServiceException m"
    using has_kind_domain by blast
  show ?thesis
    using assms unfolding e
    by (cases k; cases k')
       (auto simp: ustr_def city_not_found_def prefix_def dest: str_nat_inj)
qed

text \<open>
  The branches of \<open>OpenWeatherMapService.get_weather\<close> that behave as the specification
  says: each failure is a \<open>WeatherServiceException\<close> of the kind named, and a body whose
  fields are all found gives the snapshot.
\<close>

lemma get_weather_not_configured:
  "has_kind city e NotConfigured"
  if "OpenWeatherMapService_get_weather L [] http city = Inl e"
  using that by (auto simp: OpenWeatherMapService_get_weather_def)

lemma get_weather_kinds:
  assumes "api_key \<noteq> []"
  shows "\<exists>e. OpenWeatherMapService_get_weather L api_key (RequestFailed m) city = Inl e \<and>
             has_kind city e ConnectionError"
    and "\<exists>e. OpenWeatherMapService_get_weather L api_key (Response 404 body) city = Inl e \<and>
             has_kind city e NotFound"
    and "\<exists>e. OpenWeatherMapService_get_weather L api_key (Response 401 body) city = Inl e \<and>
             has_kind city e Unauthorized"
    and "status \<noteq> 200 \<Longrightarrow> status \<noteq> 404 \<Longrightarrow> status \<noteq> 401 \<Longrightarrow>
           \<exists>e. OpenWeatherMapService_get_weather L api_key (Response status body) city = Inl e \<and>
               has_kind city e (UpstreamError status)"
    and "parse_weather_fields L body = Inl (KeyError k) \<Longrightarrow>
           \<exists>e. OpenWeatherMapService_get_weather L api_key (Response 200 body) city = Inl e \<and>
               has_kind city e ParseError"
    and "parse_weather_fields L body = Inr d \<Longrightarrow>
           OpenWeatherMapService_get_weather L api_key (Response 200 body) city = Inr d"
  using assms
  by (simp_all add: OpenWeatherMapService_get_weather_def parse_weather_data_def)

lemma execute_propagates:
  assumes "cache_miss L F w now city0"
    and "svc (normalize_city L city0) = Inl (WeatherServiceException m)"
  shows "fst (GetWeatherUseCase_execute L ob svc F now city0 ip w)
           = Inl (WeatherServiceException m)"
  using assms by (simp add: execute_on_miss execute_miss_failure)

lemma parse_payload_ok:
  "openweathermap (Response 200 payload_ok) sao_paulo =
     Inr [(ustr ''city'', PStr sao_paulo),
          (ustr ''country'', PStr (ustr ''BR'')),
          (ustr ''temperature'', PFloat 25),
          (ustr ''description'', PStr (ustr ''Nublado'')),
          (ustr ''humidity'', PInt 60),
          (ustr ''pressure'', PInt 1013),
          (ustr ''wind_speed'', PFloat (55 / 10)),
          (ustr ''provider'', PStr (ustr ''openweathermap'')),
          (ustr ''raw_data'', payload_ok)]"
  by (simp add: openweathermap_def OpenWeatherMapService_get_weather_def parse_weather_data_def
        parse_weather_fields_def bind_exn_def payload_ok_def py311_simps str_title_def
        lower_ucs4_def unicode_title_def unicode_lower_def unicode_cased_def ustr_def py311_def)

lemma parse_payload_empty_weather:
  "openweathermap (Response 200 payload_empty_weather) city
     = Inl (IndexError (ustr ''list index out of range''))"
  by (simp add: openweathermap_def OpenWeatherMapService_get_weather_def parse_weather_data_def
        parse_weather_fields_def bind_exn_def payload_empty_weather_def ustr_def py311_def)

text \<open>
  C5: the code departs from the claim. A response with status 200 whose \<open>weather\<close> list is
  empty lacks the description, a required field. \<open>_parse_weather_data\<close> catches only
  \<open>KeyError\<close>, and indexing the empty list raises \<open>IndexError\<close>: the provider fails with an
  exception that is none of the six kinds, and GetWeather hands the caller a
  \<open>WeatherServiceException\<close> for an internal error that wraps it.
\<close>

theorem provider_empty_weather_list:
  "openweathermap (Response 200 payload_empty_weather) sao_paulo
     = Inl (IndexError (ustr ''list index out of range'')) \<and>
   (\<forall>k. \<not> has_kind sao_paulo (IndexError (ustr ''list index out of range'')) k) \<and>
   fst (GetWeatherUseCase_execute py311 table_order_ties
          (openweathermap (Response 200 payload_empty_weather)) no_faults 0 sao_paulo_upper
          client0 world0)
     = Inl (WeatherServiceException
              (ustr ''Erro interno do servi'' @ [231] @ ustr ''o: list index out of range''))"
proof -
  have "fst (GetWeatherUseCase_execute py311 table_order_ties
          (openweathermap (Response 200 payload_empty_weather)) no_faults 0 sao_paulo_upper
          client0 world0)
     = Inl (WeatherServiceException
              (ustr ''Erro interno do servi'' @ [231] @ ustr ''o: ''
                 @ str_exn py311 (IndexError (ustr ''list index out of range''))))"
    using world0_miss [of no_faults 0 sao_paulo_upper]
    by (simp add: execute_on_miss execute_miss_failure parse_payload_empty_weather)
  then show ?thesis
    by (simp add: parse_payload_empty_weather ustr_def)
qed

end
